theory Spec2Isabelle
  imports Complex_Main "HOL-Library.Multiset"
begin

section \<open>Strings\<close>

text \<open>
  A Python \<open>str\<close> is a sequence of Unicode code points and \<open>len\<close> counts code points, so
  a string is a list of code points. Cyrillic literals of the source are written as their
  code points; ASCII literals are written with \<open>asc\<close>.
\<close>

type_synonym ustr = "nat list"

definition asc :: "string \<Rightarrow> ustr" where
  "asc s = map of_char s"

text \<open>\<open>str.isspace\<close> of one code point (the characters \<open>str.strip()\<close> removes).\<close>

definition isspace :: "nat \<Rightarrow> bool" where
  "isspace c \<longleftrightarrow>
     (9 \<le> c \<and> c \<le> 13) \<or> (28 \<le> c \<and> c \<le> 32) \<or> c = 133 \<or> c = 160 \<or> c = 5760 \<or>
     (8192 \<le> c \<and> c \<le> 8202) \<or> c = 8232 \<or> c = 8233 \<or> c = 8239 \<or> c = 8287 \<or> c = 12288"

text \<open>\<open>s.strip()\<close>: whitespace removed from both ends.\<close>

definition strip :: "ustr \<Rightarrow> ustr" where
  "strip s = rev (dropWhile isspace (rev (dropWhile isspace s)))"

text \<open>\<open>s.startswith(p)\<close> and \<open>p in s\<close> (substring test).\<close>

fun startswith :: "'a list \<Rightarrow> 'a list \<Rightarrow> bool" where
  "startswith s [] = True"
| "startswith [] (p # ps) = False"
| "startswith (c # cs) (p # ps) = (c = p \<and> startswith cs ps)"

fun contains :: "'a list \<Rightarrow> 'a list \<Rightarrow> bool" where
  "contains [] p = (p = [])"
| "contains (c # cs) p = (startswith (c # cs) p \<or> contains cs p)"

section \<open>Session store\<close>

text \<open>
  The per-user dictionary \<open>context.user_data\<close> has the keys \<open>chat_session\<close>,
  \<open>last_activity\<close>, \<open>model\<close>, \<open>image_model\<close>, \<open>mode\<close>, \<open>photo_task\<close> and
  \<open>active_image\<close>; a key that is absent is \<open>None\<close>. The values the source ever stores under
  \<open>mode\<close>, \<open>model\<close> and \<open>image_model\<close> are the string literals enumerated below.
  Timestamps (\<open>time.time()\<close>) are taken as exact reals.

  A chat object made by \<open>gemini_client.chats.create\<close> is a new object on every call. The
  field \<open>chats_created\<close> counts the objects made so far and provides the identity of the
  next one.
\<close>

datatype mode = Translate | YoutubeMode | ImageGen | AwaitingEditPhoto | AwaitingEditPrompt

datatype model_key = Pro | Flash

type_synonym image = "nat list"

record photo_task =
  pt_photos :: "image list"
  pt_message_id :: int
  pt_timestamp :: real

record active_image =
  ai_photo_bytes :: image
  ai_timestamp :: real

record chat =
  chat_ident :: nat
  chat_model :: model_key
  chat_instruction :: model_key

record user_data =
  chat_session :: "chat option"
  last_activity :: "real option"
  model :: "model_key option"
  image_model :: "model_key option"
  mode :: "mode option"
  photo_task :: "photo_task option"
  active_image :: "active_image option"
  chats_created :: nat
  messages_count :: nat

definition MEMORY_TIMEOUT :: real where
  "MEMORY_TIMEOUT = 5 * 60"

definition PHOTO_BUTTON_TIMEOUT :: real where
  "PHOTO_BUTTON_TIMEOUT = 180"

definition IMAGE_CONTEXT_TIMEOUT :: real where
  "IMAGE_CONTEXT_TIMEOUT = 300"

text \<open>\<open>context.user_data.get('model', 'flash')\<close>\<close>

definition get_model_key :: "user_data \<Rightarrow> model_key" where
  "get_model_key ud = (case model ud of None \<Rightarrow> Flash | Some k \<Rightarrow> k)"

text \<open>
  \<open>reset_session\<close>: creates a chat for the user's text model, stores it with the current
  time, and pops \<open>mode\<close> and \<open>active_image\<close>. Returns the chat and the updated dictionary.
\<close>

definition reset_session :: "real \<Rightarrow> user_data \<Rightarrow> chat \<times> user_data" where
  "reset_session now ud =
     (let model_key = get_model_key ud;
          instruction = (if model_key = Pro then Pro else Flash);
          c = \<lparr>chat_ident = chats_created ud, chat_model = model_key,
                chat_instruction = instruction\<rparr>
      in (c, ud\<lparr>chats_created := Suc (chats_created ud),
                 chat_session := Some c,
                 last_activity := Some now,
                 mode := None,
                 active_image := None\<rparr>))"

text \<open>
  \<open>get_or_create_session\<close>: \<open>last_time\<close> defaults to 0; a missing chat or an idle time
  above \<open>MEMORY_TIMEOUT\<close> calls \<open>reset_session\<close>, otherwise only \<open>last_activity\<close> is
  refreshed. The function returns \<open>user_data['chat_session']\<close>.
\<close>

definition get_or_create_session :: "real \<Rightarrow> user_data \<Rightarrow> chat \<times> user_data" where
  "get_or_create_session current_time ud =
     (let last_time = (case last_activity ud of None \<Rightarrow> 0 | Some t \<Rightarrow> t)
      in case chat_session ud of
           None \<Rightarrow> reset_session current_time ud
         | Some c \<Rightarrow>
             if current_time - last_time > MEMORY_TIMEOUT then reset_session current_time ud
             else (c, ud\<lparr>last_activity := Some current_time\<rparr>))"

text \<open>
  Every chat stored in a session was made by the client, so its identity is below the
  client's counter.
\<close>

definition session_wf :: "user_data \<Rightarrow> bool" where
  "session_wf ud = (case chat_session ud of None \<Rightarrow> True | Some c \<Rightarrow> chat_ident c < chats_created ud)"

section \<open>Sending with retries\<close>

text \<open>
  What one call of \<open>chat.send_message\<close> under \<open>asyncio.wait_for\<close> can do: return a response
  (possibly \<open>None\<close>, possibly with no text), run into the time limit, or raise an exception
  whose \<open>str\<close> is given.
\<close>

datatype response = Response (resp_text: "ustr option")

datatype outcome = Returned "response option" | TimedOut | Raised ustr

text \<open>
  The exceptions that leave \<open>send_with_retry\<close>: the two \<open>RuntimeError\<close>s and the
  \<open>TimeoutError\<close> it makes itself, and an exception of the SDK.
\<close>

datatype exn = EmptyResponse | Timeout | NoAttempt | ApiError ustr

fun exn_str :: "exn \<Rightarrow> ustr" where
  "exn_str EmptyResponse =
     [1055, 1091, 1089, 1090, 1086, 1081, 32, 1086, 1090, 1074, 1077, 1090, 32, 1086, 1090, 32,
      65, 80, 73]"
| "exn_str Timeout =
     [1055, 1088, 1077, 1074, 1099, 1096, 1077, 1085, 1086, 32, 1074, 1088, 1077, 1084, 1103, 32,
      1086, 1078, 1080, 1076, 1072, 1085, 1080, 1103, 32, 1086, 1090, 1074, 1077, 1090, 1072, 32,
      1086, 1090, 32, 71, 101, 109, 105, 110, 105]"
| "exn_str NoAttempt =
     [1055, 1091, 1089, 1090, 1086, 1081, 32, 1086, 1090, 1074, 1077, 1090, 32, 1086, 1090, 32,
      65, 80, 73, 32, 1073, 1077, 1079, 32, 1086, 1096, 1080, 1073, 1082, 1080]"
| "exn_str (ApiError msg) = msg"

definition MAX_RETRIES :: int where
  "MAX_RETRIES = 2"

text \<open>\<open>response and response.text and response.text.strip()\<close>\<close>

definition usable :: "response option \<Rightarrow> bool" where
  "usable r = (case r of None \<Rightarrow> False
               | Some (Response None) \<Rightarrow> False
               | Some (Response (Some t)) \<Rightarrow> t \<noteq> [] \<and> strip t \<noteq> [])"

text \<open>\<open>any(code in error_str for code in ['429', '503', '500'])\<close>\<close>

definition has_retry_code :: "ustr \<Rightarrow> bool" where
  "has_retry_code error_str =
     (contains error_str (asc ''429'') \<or> contains error_str (asc ''503'') \<or>
      contains error_str (asc ''500''))"

text \<open>
  The handler \<open>except Exception as e\<close> at attempt \<open>attempt\<close>: \<open>Inl w\<close> sleeps \<open>w\<close> seconds
  and continues the loop, \<open>Inr e\<close> raises.
\<close>

definition on_exception :: "int \<Rightarrow> nat \<Rightarrow> exn \<Rightarrow> nat + exn" where
  "on_exception retries attempt e =
     (if has_retry_code (exn_str e) \<and> int attempt < retries then Inl ((attempt + 1) * 3)
      else Inr e)"

text \<open>
  One pass of the loop body: \<open>Inr (Inr r)\<close> returns the response, \<open>Inl w\<close> sleeps and
  continues, \<open>Inr (Inl e)\<close> raises. The \<open>raise\<close> for an empty response is inside the \<open>try\<close>,
  so it goes through \<open>on_exception\<close>; the one for a timeout is inside a handler and leaves
  the function.
\<close>

definition attempt_body :: "int \<Rightarrow> nat \<Rightarrow> outcome \<Rightarrow> nat + (exn + response option)" where
  "attempt_body retries attempt out =
     (case out of
        Returned r \<Rightarrow>
          if usable r then Inr (Inr r)
          else if int attempt < retries then Inl 2
          else (case on_exception retries attempt EmptyResponse of
                  Inl w \<Rightarrow> Inl w | Inr e \<Rightarrow> Inr (Inl e))
      | TimedOut \<Rightarrow> if int attempt < retries then Inl 2 else Inr (Inl Timeout)
      | Raised msg \<Rightarrow>
          (case on_exception retries attempt (ApiError msg) of
             Inl w \<Rightarrow> Inl w | Inr e \<Rightarrow> Inr (Inl e)))"

text \<open>
  The value assigned to \<open>last_error\<close> in a pass that fails.
\<close>

definition error_of :: "outcome \<Rightarrow> exn" where
  "error_of out = (case out of Returned r \<Rightarrow> EmptyResponse | TimedOut \<Rightarrow> Timeout
                   | Raised msg \<Rightarrow> ApiError msg)"

text \<open>
  The result of \<open>send_with_retry\<close>: the sleeps done, in order, the number of calls of
  \<open>chat.send_message\<close>, and the response or the exception raised.
\<close>

record retry_result =
  sleeps :: "nat list"
  calls :: nat
  result :: "exn + response option"

text \<open>
  The loop \<open>for attempt in range(retries + 1)\<close>, with \<open>k\<close> passes left; the code after the
  loop raises \<open>last_error\<close>, or \<open>NoAttempt\<close> when there is none.
\<close>

fun retry_loop :: "(nat \<Rightarrow> outcome) \<Rightarrow> int \<Rightarrow> exn option \<Rightarrow> nat \<Rightarrow> nat \<Rightarrow> retry_result" where
  "retry_loop send retries last_error attempt 0 =
     \<lparr>sleeps = [], calls = 0,
      result = Inl (case last_error of None \<Rightarrow> NoAttempt | Some e \<Rightarrow> e)\<rparr>"
| "retry_loop send retries last_error attempt (Suc k) =
     (case attempt_body retries attempt (send attempt) of
        Inr r \<Rightarrow> \<lparr>sleeps = [], calls = 1, result = r\<rparr>
      | Inl w \<Rightarrow>
          (let rest = retry_loop send retries (Some (error_of (send attempt))) (Suc attempt) k
           in rest\<lparr>sleeps := w # sleeps rest, calls := Suc (calls rest)\<rparr>))"

definition send_with_retry :: "(nat \<Rightarrow> outcome) \<Rightarrow> int \<Rightarrow> retry_result" where
  "send_with_retry send retries = retry_loop send retries None 0 (nat (retries + 1))"

section \<open>Mode dispatcher\<close>

text \<open>
  The incoming update as \<open>handle_message\<close> reads it: the text (\<open>None\<close> when the message or
  its text is missing), the result of \<open>check_access\<close>, whether the chat is private, whether
  the sender is the administrator, whether the message replies to the bot, and whether it
  replies to a message that carries a photo.
\<close>

record message =
  msg_text :: "ustr option"
  msg_authorized :: bool
  msg_private :: bool
  msg_from_admin :: bool
  msg_reply_to_bot :: bool
  msg_reply_to_photo :: bool

text \<open>What a one-shot \<open>generate_content\<close> call under \<open>asyncio.wait_for\<close> can do.\<close>

datatype gen_outcome = GenText "ustr option" | GenTimeout | GenRaised ustr

text \<open>
  The collaborators of one handler run: the clock, \<open>str.lower\<close>, the bot's user name, and
  the answers of the generative backend and of the transcript service. \<open>Inl\<close> is the
  \<open>str\<close> of a raised exception. \<open>env_summarize\<close> returns the dictionary of
  \<open>summarize_youtube\<close>: \<open>Inr (Inl error)\<close> when \<open>success\<close> is false, \<open>Inr (Inr summary)\<close>
  otherwise. Calls of the messaging transport are taken to succeed; progress notices and
  logging are left out.
\<close>

record env =
  env_now :: real
  env_lower :: "ustr \<Rightarrow> ustr"
  env_bot_username :: ustr
  env_edit_image :: "image list \<Rightarrow> ustr \<Rightarrow> model_key \<Rightarrow> ustr + image"
  env_generate_image :: "ustr \<Rightarrow> model_key \<Rightarrow> ustr + image"
  env_translate :: "ustr \<Rightarrow> gen_outcome"
  env_analyze :: "model_key \<Rightarrow> ustr \<Rightarrow> gen_outcome"
  env_multimodal :: "model_key \<Rightarrow> image \<Rightarrow> ustr \<Rightarrow> gen_outcome"
  env_summarize :: "ustr \<Rightarrow> ustr + (ustr + ustr)"
  env_send_message :: "chat \<Rightarrow> ustr \<Rightarrow> nat \<Rightarrow> outcome"

text \<open>The messages the dispatcher sends, one constructor per template of the source.\<close>

datatype reply =
    R_NoAccess
  | R_DataLost
  | R_EditCaption model_key nat ustr
  | R_Photo image
  | R_GeminiError string ustr
  | R_TranslateOff | R_ImageGenOff | R_YoutubeOff | R_ModeOff
  | R_TranslateOn
  | R_SafeMessage ustr
  | R_YoutubeOn
  | R_YoutubeFail ustr
  | R_ProOn | R_FlashOn
  | R_GenCancelled | R_TranslateCancelled | R_ContextReset
  | R_ImageGenOn model_key | R_ImageProOn | R_ImageFlashOn
  | R_EditOn model_key
  | R_ModelText model_key
  | R_AnalyzeTimeout
  | R_PlainError ustr
  | R_TranslateError ustr
  | R_YoutubeError ustr
  | R_NotifyAdmin ustr
  | R_Promo
  | R_StartDone model_key
  | R_ProModel | R_FlashModel

text \<open>\<open>context.user_data.get('image_model', 'pro')\<close>\<close>

definition get_image_model :: "user_data \<Rightarrow> model_key" where
  "get_image_model ud = (case image_model ud of None \<Rightarrow> Pro | Some k \<Rightarrow> k)"

text \<open>
  \<open>_process_photo_edit_prompt\<close>. The result is the returned flag, the dictionary afterwards
  and the replies.
\<close>

definition process_photo_edit_prompt :: "env \<Rightarrow> user_data \<Rightarrow> ustr \<Rightarrow> bool \<times> user_data \<times> reply list" where
  "process_photo_edit_prompt e ud text =
     (if mode ud \<noteq> Some AwaitingEditPrompt then (False, ud, [])
      else case photo_task ud of
        None \<Rightarrow> (True, ud\<lparr>mode := None\<rparr>, [R_DataLost])
      | Some task \<Rightarrow>
          (let prompt = text;
               photos_bytes = pt_photos task;
               photos_count = length photos_bytes;
               model_key = get_image_model ud
           in case env_edit_image e photos_bytes prompt model_key of
                Inr result_data \<Rightarrow>
                  (True, ud\<lparr>mode := None, photo_task := None\<rparr>,
                   [R_EditCaption model_key photos_count prompt, R_Photo result_data])
              | Inl err \<Rightarrow>
                  (True, ud\<lparr>mode := None\<rparr>, [R_GeminiError ''IMAGE_EDIT_BTN'' err])))"

definition exit_keywords :: "ustr list" where
  "exit_keywords = [[1074, 1099, 1093, 1086, 1076], asc ''exit'', asc ''quit'', asc ''stop'']"

text \<open>\<open>_process_exit_commands\<close>\<close>

definition process_exit_commands :: "user_data \<Rightarrow> ustr \<Rightarrow> bool \<times> user_data \<times> reply list" where
  "process_exit_commands ud lower_text =
     (if lower_text \<notin> set exit_keywords then (False, ud, [])
      else case mode ud of
        None \<Rightarrow> (False, ud, [])
      | Some current_mode \<Rightarrow>
          (True, ud\<lparr>mode := None\<rparr>,
           [case current_mode of
              Translate \<Rightarrow> R_TranslateOff
            | ImageGen \<Rightarrow> R_ImageGenOff
            | YoutubeMode \<Rightarrow> R_YoutubeOff
            | _ \<Rightarrow> R_ModeOff]))"

text \<open>\<open>handle_image_generation\<close>: no key of the dictionary is written.\<close>

definition handle_image_generation :: "env \<Rightarrow> user_data \<Rightarrow> ustr \<Rightarrow> reply list" where
  "handle_image_generation e ud prompt =
     (let model_key = get_image_model ud
      in case env_generate_image e prompt model_key of
           Inr result_data \<Rightarrow> [R_ModelText model_key, R_Photo result_data]
         | Inl err \<Rightarrow> [R_GeminiError ''IMAGE_GEN'' err])"

text \<open>
  \<open>response.text if response and response.text else dflt\<close>, and the three default
  texts. The \<open>str\<close> of \<open>asyncio.TimeoutError()\<close> is empty.
\<close>

definition text_or :: "ustr option \<Rightarrow> ustr \<Rightarrow> ustr" where
  "text_or r dflt = (case r of None \<Rightarrow> dflt | Some t \<Rightarrow> if t = [] then dflt else t)"

definition not_translated :: ustr where
  "not_translated =
     [1053, 1077, 32, 1091, 1076, 1072, 1083, 1086, 1089, 1100, 32, 1087, 1077, 1088, 1077, 1074,
      1077, 1089, 1090, 1080]"

definition not_analyzed :: ustr where
  "not_analyzed =
     [1053, 1077, 32, 1091, 1076, 1072, 1083, 1086, 1089, 1100, 32, 1087, 1088, 1086, 1072, 1085,
      1072, 1083, 1080, 1079, 1080, 1088, 1086, 1074, 1072, 1090, 1100]"

definition empty_answer :: ustr where
  "empty_answer =
     [1055, 1091, 1089, 1090, 1086, 1081, 32, 1086, 1090, 1074, 1077, 1090, 32, 1086, 1090, 32,
      65, 80, 73]"

text \<open>The one-shot translation of the shorthand with an argument.\<close>

definition translate_now :: "env \<Rightarrow> ustr \<Rightarrow> reply list" where
  "translate_now e text_to_translate =
     (case env_translate e text_to_translate of
        GenText r \<Rightarrow> [R_SafeMessage (text_or r not_translated)]
      | GenTimeout \<Rightarrow> [R_GeminiError ''TRANSLATE'' []]
      | GenRaised err \<Rightarrow> [R_GeminiError ''TRANSLATE'' err])"

text \<open>The summary of a video, as both the shorthand and the mode send it.\<close>

definition youtube_replies :: "env \<Rightarrow> ustr \<Rightarrow> (ustr \<Rightarrow> reply) \<Rightarrow> reply list" where
  "youtube_replies e url on_raise =
     (case env_summarize e url of
        Inr (Inr summary) \<Rightarrow> [R_SafeMessage summary]
      | Inr (Inl err) \<Rightarrow> [R_YoutubeFail err]
      | Inl err \<Rightarrow> [on_raise err])"

text \<open>The command words of \<open>_process_fast_commands\<close>.\<close>

definition kw_pr :: ustr where "kw_pr = [1087, 1088]"
definition kw_perevod :: ustr where "kw_perevod = [1087, 1077, 1088, 1077, 1074, 1086, 1076]"
definition kw_yu :: ustr where "kw_yu = [1102]"
definition kw_yutub :: ustr where "kw_yutub = [1102, 1090, 1091, 1073]"
definition kw_p :: ustr where "kw_p = [1087]"
definition kw_pro :: ustr where "kw_pro = [1087, 1088, 1086]"
definition kw_f :: ustr where "kw_f = [1092]"
definition kw_k :: ustr where "kw_k = [1082]"
definition kw_kartinka :: ustr where "kw_kartinka = [1082, 1072, 1088, 1090, 1080, 1085, 1082, 1072]"
definition kw_flesh :: ustr where "kw_flesh = [1092, 1083, 1077, 1096]"
definition kw_r :: ustr where "kw_r = [1088]"
definition kw_redaktirovat :: ustr where
  "kw_redaktirovat = [1088, 1077, 1076, 1072, 1082, 1090, 1080, 1088, 1086, 1074, 1072, 1090, 1100]"

text \<open>
  The shorthand for a translation with its text: \<open>None\<close> when the prefix does not match or
  the text after it is empty (the source then goes on to the next test).
\<close>

definition fast_translate_arg :: "env \<Rightarrow> ustr \<Rightarrow> ustr \<Rightarrow> reply list option" where
  "fast_translate_arg e stripped lower_text =
     (if startswith lower_text (kw_pr @ [32]) \<or> startswith lower_text (kw_perevod @ [32]) \<or>
         startswith lower_text (asc ''translate '')
      then (let text_to_translate =
                  (if startswith lower_text (asc ''translate '') then strip (drop 10 stripped)
                   else if startswith lower_text (kw_perevod @ [32]) then strip (drop 8 stripped)
                   else strip (drop 3 stripped))
            in if text_to_translate \<noteq> [] then Some (translate_now e text_to_translate) else None)
      else None)"

definition fast_youtube_arg :: "env \<Rightarrow> ustr \<Rightarrow> ustr \<Rightarrow> reply list option" where
  "fast_youtube_arg e stripped lower_text =
     (if startswith lower_text (kw_yu @ [32]) \<or> startswith lower_text (kw_yutub @ [32]) \<or>
         startswith lower_text (asc ''youtube '')
      then (let url =
                  (if startswith lower_text (asc ''youtube '') then strip (drop 8 stripped)
                   else if startswith lower_text (kw_yutub @ [32]) then strip (drop 5 stripped)
                   else strip (drop 2 stripped))
            in if url \<noteq> [] then Some (youtube_replies e url (R_GeminiError ''YOUTUBE'')) else None)
      else None)"

text \<open>\<open>_process_fast_commands\<close>, test by test in the order of the source.\<close>

definition process_fast_commands ::
  "env \<Rightarrow> user_data \<Rightarrow> ustr \<Rightarrow> ustr \<Rightarrow> bool \<times> user_data \<times> reply list" where
  "process_fast_commands e ud stripped lower_text =
     (if lower_text \<in> set [kw_pr, kw_perevod, asc ''translate'']
      then (True, ud\<lparr>mode := Some Translate\<rparr>, [R_TranslateOn])
      else case fast_translate_arg e stripped lower_text of
        Some rs \<Rightarrow> (True, ud, rs)
      | None \<Rightarrow>
      if lower_text \<in> set [kw_yu, kw_yutub, asc ''youtube'']
      then (True, ud\<lparr>mode := Some YoutubeMode\<rparr>, [R_YoutubeOn])
      else case fast_youtube_arg e stripped lower_text of
        Some rs \<Rightarrow> (True, ud, rs)
      | None \<Rightarrow>
      if lower_text \<in> set [kw_p, kw_pro, asc ''pro'']
      then (True, snd (reset_session (env_now e) (ud\<lparr>model := Some Pro\<rparr>)), [R_ProOn])
      else if lower_text = kw_f
      then (True, snd (reset_session (env_now e) (ud\<lparr>model := Some Flash\<rparr>)), [R_FlashOn])
      else if stripped = asc ''.''
      then (let was_in_mode = mode ud
            in (True, snd (reset_session (env_now e) ud),
                [if was_in_mode = Some ImageGen then R_GenCancelled
                 else if was_in_mode = Some Translate then R_TranslateCancelled
                 else R_ContextReset]))
      else if lower_text \<in> set [kw_k, kw_kartinka]
      then (True, ud\<lparr>mode := Some ImageGen\<rparr>, [R_ImageGenOn (get_image_model ud)])
      else if lower_text \<in> set [kw_k @ [32] @ kw_pro, kw_k @ [32] @ asc ''pro'']
      then (True, ud\<lparr>image_model := Some Pro, mode := Some ImageGen\<rparr>, [R_ImageProOn])
      else if lower_text \<in> set [kw_k @ [32] @ kw_flesh, kw_k @ [32] @ asc ''flash'']
      then (True, ud\<lparr>image_model := Some Flash, mode := Some ImageGen\<rparr>, [R_ImageFlashOn])
      else if startswith lower_text (kw_k @ [32]) \<or> startswith lower_text (kw_kartinka @ [32])
      then (let prompt = (if startswith lower_text (kw_kartinka @ [32]) then strip (drop 9 stripped)
                          else strip (drop 2 stripped))
            in (True, ud, handle_image_generation e ud prompt))
      else if lower_text \<in> set [kw_r, kw_redaktirovat, asc ''edit'']
      then (True, ud\<lparr>mode := Some AwaitingEditPhoto\<rparr>, [R_EditOn (get_image_model ud)])
      else (False, ud, []))"

definition describe_prompt :: ustr where
  "describe_prompt =
     [1054, 1087, 1080, 1096, 1080, 32, 1087, 1086, 1076, 1088, 1086, 1073, 1085, 1086, 32, 1095,
      1090, 1086, 32, 1085, 1072, 32, 1101, 1090, 1086, 1084, 32, 1080, 1079, 1086, 1073, 1088,
      1072, 1078, 1077, 1085, 1080, 1080]"

text \<open>\<open>_process_reply_to_photo\<close>; \<open>bot_stats['messages_count']\<close> is kept with the session.\<close>

definition process_reply_to_photo ::
  "env \<Rightarrow> user_data \<Rightarrow> message \<Rightarrow> ustr \<Rightarrow> bool \<times> user_data \<times> reply list" where
  "process_reply_to_photo e ud m text =
     (if \<not> msg_reply_to_photo m then (False, ud, [])
      else (let prompt = (if strip text \<noteq> [] then strip text else describe_prompt);
                model_key = get_model_key ud
            in case env_analyze e model_key prompt of
                 GenText r \<Rightarrow>
                   (True, ud\<lparr>messages_count := messages_count ud + 1\<rparr>,
                    [R_SafeMessage (text_or r not_analyzed)])
               | GenTimeout \<Rightarrow> (True, ud, [R_AnalyzeTimeout])
               | GenRaised err \<Rightarrow> (True, ud, [R_PlainError (take 150 err)])))"

text \<open>\<open>_process_translation_mode\<close>: the mode is popped after the answer was sent.\<close>

definition process_translation_mode :: "env \<Rightarrow> user_data \<Rightarrow> ustr \<Rightarrow> user_data \<times> reply list" where
  "process_translation_mode e ud text =
     (case env_translate e text of
        GenText r \<Rightarrow> (ud\<lparr>mode := None\<rparr>, [R_SafeMessage (text_or r not_translated)])
      | GenTimeout \<Rightarrow> (ud, [R_TranslateError []])
      | GenRaised err \<Rightarrow> (ud, [R_TranslateError (take 100 err)]))"

text \<open>\<open>_process_youtube_mode\<close> and \<open>_process_image_gen_mode\<close>\<close>

definition process_youtube_mode :: "env \<Rightarrow> user_data \<Rightarrow> ustr \<Rightarrow> user_data \<times> reply list" where
  "process_youtube_mode e ud text =
     (ud, youtube_replies e text (\<lambda>err. R_YoutubeError (take 100 err)))"

definition process_image_gen_mode :: "env \<Rightarrow> user_data \<Rightarrow> ustr \<Rightarrow> user_data \<times> reply list" where
  "process_image_gen_mode e ud text = (ud, handle_image_generation e ud (strip text))"

text \<open>\<open>s.replace(old, new)\<close>: the occurrences of \<open>old\<close> from the left, not overlapping.\<close>

fun replace_from :: "'a list \<Rightarrow> 'a list \<Rightarrow> nat \<Rightarrow> 'a list \<Rightarrow> 'a list" where
  "replace_from old new k [] = []"
| "replace_from old new (Suc k) (c # cs) = replace_from old new k cs"
| "replace_from old new 0 (c # cs) =
     (if startswith (c # cs) old then new @ replace_from old new (length old - 1) cs
      else c # replace_from old new 0 cs)"

definition replace :: "'a list \<Rightarrow> 'a list \<Rightarrow> 'a list \<Rightarrow> 'a list" where
  "replace s old new =
     (if old = [] then new @ concat (map (\<lambda>c. c # new) s) else replace_from old new 0 s)"

text \<open>
  The ordinary conversational turn at the end of \<open>handle_message\<close>: an unexpired active
  image gives a one-shot multimodal call, otherwise the persistent chat is used.
\<close>

definition chat_turn :: "env \<Rightarrow> user_data \<Rightarrow> message \<Rightarrow> ustr \<Rightarrow> user_data \<times> reply list" where
  "chat_turn e ud0 m text =
     (let ud = (case active_image ud0 of
                  None \<Rightarrow> ud0
                | Some ai \<Rightarrow> if env_now e - ai_timestamp ai > IMAGE_CONTEXT_TIMEOUT
                            then ud0\<lparr>active_image := None\<rparr> else ud0);
          clean_text = (if env_bot_username e \<noteq> []
                        then strip (replace text (asc ''@'' @ env_bot_username e) [])
                        else text);
          on_error = (\<lambda>err. [R_GeminiError ''CHAT'' err] @
                        (if msg_private m \<and> \<not> msg_from_admin m then [R_NotifyAdmin err] else []))
      in case active_image ud of
           Some ai \<Rightarrow>
             (case env_multimodal e (get_model_key ud) (ai_photo_bytes ai) clean_text of
                GenText r \<Rightarrow> (ud, [R_SafeMessage (text_or r empty_answer)])
              | GenTimeout \<Rightarrow> (ud, on_error [])
              | GenRaised err \<Rightarrow> (ud, on_error err))
         | None \<Rightarrow>
             (let (c, ud') = get_or_create_session (env_now e) ud
              in case result (send_with_retry (env_send_message e c clean_text) MAX_RETRIES) of
                   Inr r \<Rightarrow> (ud', [R_SafeMessage
                                     (text_or (case r of None \<Rightarrow> None | Some x \<Rightarrow> resp_text x)
                                        empty_answer)])
                 | Inl ex \<Rightarrow> (ud', on_error (exn_str ex))))"

text \<open>\<open>handle_message\<close>\<close>

definition handle_message :: "env \<Rightarrow> user_data \<Rightarrow> message \<Rightarrow> user_data \<times> reply list" where
  "handle_message e ud m =
     (case msg_text m of
        None \<Rightarrow> (ud, [])
      | Some text \<Rightarrow>
      if text = [] then (ud, [])
      else if \<not> msg_authorized m then (ud, if msg_private m then [R_NoAccess] else [])
      else (let is_mentioned = (env_bot_username e \<noteq> [] \<and> contains text (env_bot_username e))
      in if \<not> msg_private m \<and> \<not> (msg_reply_to_bot m \<or> is_mentioned) then (ud, [])
      else (let stripped = strip text;
                lower_text = env_lower e stripped
      in case process_photo_edit_prompt e ud text of
        (True, ud1, rs) \<Rightarrow> (ud1, rs)
      | (False, ud1, _) \<Rightarrow>
      (case process_exit_commands ud1 lower_text of
        (True, ud2, rs) \<Rightarrow> (ud2, rs)
      | (False, ud2, _) \<Rightarrow>
      (case process_fast_commands e ud2 stripped lower_text of
        (True, ud3, rs) \<Rightarrow> (ud3, rs)
      | (False, ud3, _) \<Rightarrow>
      (case process_reply_to_photo e ud3 m text of
        (True, ud4, rs) \<Rightarrow> (ud4, rs)
      | (False, ud4, _) \<Rightarrow>
      (let ud5 = ud4\<lparr>messages_count := messages_count ud4 + 1\<rparr>
       in if mode ud5 = Some ImageGen then process_image_gen_mode e (ud5\<lparr>mode := None\<rparr>) text
          else if mode ud5 = Some YoutubeMode then process_youtube_mode e (ud5\<lparr>mode := None\<rparr>) text
          else if mode ud5 = Some Translate then process_translation_mode e ud5 text
          else chat_turn e ud5 m text)))))))"

text \<open>
  The command handlers \<open>start\<close>, \<open>set_pro_model\<close> and \<open>set_flash_model\<close>; the flag is the
  result of \<open>check_access\<close>.
\<close>

definition start :: "env \<Rightarrow> user_data \<Rightarrow> bool \<Rightarrow> user_data \<times> reply list" where
  "start e ud authorized =
     (if \<not> authorized then (ud, [R_Promo])
      else (let ud' = snd (reset_session (env_now e) ud)
            in (ud', [R_StartDone (get_model_key ud')])))"

definition set_pro_model :: "env \<Rightarrow> user_data \<Rightarrow> bool \<Rightarrow> user_data \<times> reply list" where
  "set_pro_model e ud authorized =
     (if \<not> authorized then (ud, [R_NoAccess])
      else (snd (reset_session (env_now e) (ud\<lparr>model := Some Pro\<rparr>)), [R_ProModel]))"

definition set_flash_model :: "env \<Rightarrow> user_data \<Rightarrow> bool \<Rightarrow> user_data \<times> reply list" where
  "set_flash_model e ud authorized =
     (if \<not> authorized then (ud, [R_NoAccess])
      else (snd (reset_session (env_now e) (ud\<lparr>model := Some Flash\<rparr>)), [R_FlashModel]))"

section \<open>Album coalescer\<close>

text \<open>
  An entry of \<open>pending_albums\<close>, and a photo update as \<open>handle_photo\<close> reads it: the bytes
  of the largest size of the photo, the caption, the ids, the result of \<open>check_access\<close>,
  the group id and the time of arrival.
\<close>

record album =
  al_photos :: "image list"
  al_caption :: ustr
  al_user_id :: int
  al_chat_id :: int
  al_message_id :: int
  al_timestamp :: real

record fragment =
  fr_photo :: image
  fr_caption :: "ustr option"
  fr_user_id :: int
  fr_chat_id :: int
  fr_message_id :: int
  fr_authorized :: bool
  fr_media_group_id :: "ustr option"
  fr_time :: real

text \<open>
  The process-wide state of the coalescer: the dictionary \<open>pending_albums\<close>, the tasks
  made by \<open>asyncio.create_task(process_album_delayed(...))\<close> that are still in their
  \<open>asyncio.sleep\<close> (by group id, in the order of creation), the number of tasks ever made,
  and the albums that \<open>process_album_delayed\<close> has popped and gone on to process, in order.
\<close>

record coalescer =
  pending_albums :: "ustr \<rightharpoonup> album"
  sleeping :: "ustr list"
  tasks_created :: nat
  flushed :: "album list"

definition MAX_ALBUM_PHOTOS :: nat where
  "MAX_ALBUM_PHOTOS = 10"

text \<open>The block under \<open>if media_group_id:\<close> of \<open>handle_photo\<close>.\<close>

definition album_fragment :: "coalescer \<Rightarrow> fragment \<Rightarrow> ustr \<Rightarrow> coalescer" where
  "album_fragment co fr media_group_id =
     (let caption = (case fr_caption fr of None \<Rightarrow> [] | Some c \<Rightarrow> c);
          photo_bytes = fr_photo fr
      in case pending_albums co media_group_id of
           None \<Rightarrow>
             co\<lparr>pending_albums := (pending_albums co)(media_group_id \<mapsto>
                    \<lparr>al_photos = [photo_bytes], al_caption = caption,
                     al_user_id = fr_user_id fr, al_chat_id = fr_chat_id fr,
                     al_message_id = fr_message_id fr, al_timestamp = fr_time fr\<rparr>),
                sleeping := sleeping co @ [media_group_id],
                tasks_created := Suc (tasks_created co)\<rparr>
         | Some a \<Rightarrow>
             (let a1 = (if length (al_photos a) < MAX_ALBUM_PHOTOS
                        then a\<lparr>al_photos := al_photos a @ [photo_bytes]\<rparr> else a);
                  a2 = (if al_caption a1 = [] \<and> caption \<noteq> []
                        then a1\<lparr>al_caption := caption\<rparr> else a1)
              in co\<lparr>pending_albums := (pending_albums co)(media_group_id \<mapsto> a2)\<rparr>))"

text \<open>
  \<open>handle_photo\<close> up to the end of the album block. A photo without a group id goes on to
  the single-photo part of the handler, which is outside the coalescer.
\<close>

datatype photo_result = Denied | Buffered coalescer | SinglePhoto

definition handle_photo :: "coalescer \<Rightarrow> fragment \<Rightarrow> photo_result" where
  "handle_photo co fr =
     (if \<not> fr_authorized fr then Denied
      else case fr_media_group_id fr of
             None \<Rightarrow> SinglePhoto
           | Some g \<Rightarrow> if g = [] then SinglePhoto else Buffered (album_fragment co fr g))"

text \<open>
  \<open>process_album_delayed\<close> after its sleep: nothing when the group is not pending,
  otherwise the album is popped and processed.
\<close>

definition process_album_delayed :: "coalescer \<Rightarrow> ustr \<Rightarrow> coalescer" where
  "process_album_delayed co media_group_id =
     (case pending_albums co media_group_id of
        None \<Rightarrow> co
      | Some album_data \<Rightarrow>
          co\<lparr>pending_albums := (pending_albums co)(media_group_id := None),
             flushed := flushed co @ [album_data]\<rparr>)"

text \<open>
  The event loop runs one handler step at a time: a photo update arrives, or a sleeping
  task wakes. A task can wake only if it was created and has not woken yet.
\<close>

datatype event = Photo fragment | Wake ustr

definition step :: "coalescer \<Rightarrow> event \<Rightarrow> coalescer option" where
  "step co ev =
     (case ev of
        Photo fr \<Rightarrow>
          (case handle_photo co fr of
             Buffered co' \<Rightarrow> Some co'
           | Denied \<Rightarrow> Some co
           | SinglePhoto \<Rightarrow> Some co)
      | Wake g \<Rightarrow>
          if g \<in> set (sleeping co)
          then Some (process_album_delayed (co\<lparr>sleeping := remove1 g (sleeping co)\<rparr>) g)
          else None)"

fun run :: "coalescer \<Rightarrow> event list \<Rightarrow> coalescer option" where
  "run co [] = Some co"
| "run co (ev # evs) = (case step co ev of None \<Rightarrow> None | Some co' \<Rightarrow> run co' evs)"

definition coalescer_init :: coalescer where
  "coalescer_init = \<lparr>pending_albums = Map.empty, sleeping = [], tasks_created = 0, flushed = []\<rparr>"

section \<open>Chunking\<close>

datatype py_error = ValueError

text \<open>\<open>s.split(sep)\<close> for a separator of one character, and for the separator \<open>'\n\n'\<close>.\<close>

definition cons_head :: "'a \<Rightarrow> 'a list list \<Rightarrow> 'a list list" where
  "cons_head c ps = (case ps of [] \<Rightarrow> [[c]] | p # ps' \<Rightarrow> (c # p) # ps')"

fun split_on :: "'a \<Rightarrow> 'a list \<Rightarrow> 'a list list" where
  "split_on sep [] = [[]]"
| "split_on sep (c # cs) = (if c = sep then [] # split_on sep cs else cons_head c (split_on sep cs))"

fun split_nn :: "ustr \<Rightarrow> ustr list" where
  "split_nn [] = [[]]"
| "split_nn [c] = [[c]]"
| "split_nn (a # b # cs) =
     (if a = 10 \<and> b = 10 then [] # split_nn cs else cons_head a (split_nn (b # cs)))"

text \<open>
  \<open>[line[i:i + max_length] for i in range(0, len(line), max_length)]\<close>: a step of zero
  raises \<open>ValueError\<close>, a negative step gives the empty range (the stop is not negative).
\<close>

definition hard_split :: "int \<Rightarrow> ustr \<Rightarrow> py_error + ustr list" where
  "hard_split max_length line =
     (if max_length = 0 then Inl ValueError
      else if max_length < 0 then Inr []
      else (let n = nat max_length
            in Inr (map (\<lambda>k. take n (drop (k * n) line)) [0 ..< (length line + n - 1) div n])))"

text \<open>The body of \<open>for line in lines\<close>, on the pair of \<open>parts\<close> and \<open>current_part\<close>.\<close>

definition line_step :: "int \<Rightarrow> ustr list \<times> ustr \<Rightarrow> ustr \<Rightarrow> py_error + ustr list \<times> ustr" where
  "line_step max_length st line =
     (let (parts, current_part) = st
      in if int (length line) > max_length
         then (case hard_split max_length line of
                 Inl err \<Rightarrow> Inl err
               | Inr pieces \<Rightarrow> Inr (parts @ pieces, current_part))
         else if int (length current_part) + int (length line) + 1 > max_length
         then Inr (parts @ [strip current_part], line @ [10])
         else Inr (parts, current_part @ line @ [10]))"

fun lines_loop :: "int \<Rightarrow> ustr list \<times> ustr \<Rightarrow> ustr list \<Rightarrow> py_error + ustr list \<times> ustr" where
  "lines_loop max_length st [] = Inr st"
| "lines_loop max_length st (line # lines) =
     (case line_step max_length st line of
        Inl err \<Rightarrow> Inl err
      | Inr st' \<Rightarrow> lines_loop max_length st' lines)"

text \<open>The body of \<open>for paragraph in paragraphs\<close>.\<close>

definition paragraph_step :: "int \<Rightarrow> ustr list \<times> ustr \<Rightarrow> ustr \<Rightarrow> py_error + ustr list \<times> ustr" where
  "paragraph_step max_length st paragraph =
     (let (parts, current_part) = st
      in if int (length paragraph) > max_length
         then lines_loop max_length
                (if current_part \<noteq> [] then (parts @ [strip current_part], []) else (parts, current_part))
                (split_on 10 paragraph)
         else if int (length current_part) + int (length paragraph) + 2 > max_length
         then Inr (parts @ [strip current_part], paragraph @ [10, 10])
         else Inr (parts, current_part @ paragraph @ [10, 10]))"

fun paragraphs_loop :: "int \<Rightarrow> ustr list \<times> ustr \<Rightarrow> ustr list \<Rightarrow> py_error + ustr list \<times> ustr" where
  "paragraphs_loop max_length st [] = Inr st"
| "paragraphs_loop max_length st (paragraph # paragraphs) =
     (case paragraph_step max_length st paragraph of
        Inl err \<Rightarrow> Inl err
      | Inr st' \<Rightarrow> paragraphs_loop max_length st' paragraphs)"

text \<open>\<open>text[:max_length]\<close>\<close>

definition slice_to :: "ustr \<Rightarrow> int \<Rightarrow> ustr" where
  "slice_to text n = (if n \<ge> 0 then take (nat n) text else take (nat (int (length text) + n)) text)"

definition split_message :: "ustr \<Rightarrow> int \<Rightarrow> py_error + ustr list" where
  "split_message text max_length =
     (if text = [] then Inr [[]]
      else if int (length text) \<le> max_length then Inr [text]
      else case paragraphs_loop max_length ([], []) (split_nn text) of
             Inl err \<Rightarrow> Inl err
           | Inr (parts, current_part) \<Rightarrow>
               (let parts' = (if strip current_part \<noteq> [] then parts @ [strip current_part] else parts)
                in Inr (if parts' \<noteq> [] then parts' else [slice_to text max_length])))"

definition MAX_MESSAGE_LENGTH :: int where
  "MAX_MESSAGE_LENGTH = 4000"


section \<open>Formatter\<close>

text \<open>
  \<open>format_for_telegram\<close> builds its result from pieces of the text it is given and from
  literals of its own. So that the two can be told apart in the result, a character is
  taken with its origin: \<open>Input\<close> for a character of the argument, \<open>Template\<close> for a
  character that a literal of the source contributes. Every test of the source reads the
  code point only.
\<close>

datatype origin = Input | Template

type_synonym tstr = "(nat \<times> origin) list"

definition plain :: "tstr \<Rightarrow> ustr" where
  "plain s = map fst s"

definition lit :: "ustr \<Rightarrow> tstr" where
  "lit s = map (\<lambda>c. (c, Template)) s"

definition input_text :: "ustr \<Rightarrow> tstr" where
  "input_text s = map (\<lambda>c. (c, Input)) s"

text \<open>\<open>s[i:j]\<close> for indices that are not negative.\<close>

definition slice :: "'a list \<Rightarrow> nat \<Rightarrow> nat \<Rightarrow> 'a list" where
  "slice s i j = take (j - i) (drop i s)"

text \<open>
  \<open>s.strip(chars)\<close> and \<open>s.rstrip(chars)\<close> for the set of characters \<open>P\<close>; without an
  argument the set is \<open>isspace\<close>.
\<close>

definition strip_chars :: "(nat \<Rightarrow> bool) \<Rightarrow> tstr \<Rightarrow> tstr" where
  "strip_chars P s = rev (dropWhile (\<lambda>x. P (fst x)) (rev (dropWhile (\<lambda>x. P (fst x)) s)))"

definition rstrip_chars :: "(nat \<Rightarrow> bool) \<Rightarrow> tstr \<Rightarrow> tstr" where
  "rstrip_chars P s = rev (dropWhile (\<lambda>x. P (fst x)) (rev s))"

text \<open>\<open>s.replace(old, new)\<close> for \<open>old\<close> of one character, and for any \<open>old\<close>.\<close>

definition replace_char :: "nat \<Rightarrow> tstr \<Rightarrow> tstr \<Rightarrow> tstr" where
  "replace_char old new s = concat (map (\<lambda>x. if fst x = old then new else [x]) s)"

fun replace_str_from :: "ustr \<Rightarrow> tstr \<Rightarrow> nat \<Rightarrow> tstr \<Rightarrow> tstr" where
  "replace_str_from old new k [] = []"
| "replace_str_from old new (Suc k) (c # cs) = replace_str_from old new k cs"
| "replace_str_from old new 0 (c # cs) =
     (if startswith (plain (c # cs)) old then new @ replace_str_from old new (length old - 1) cs
      else c # replace_str_from old new 0 cs)"

definition replace_str :: "ustr \<Rightarrow> tstr \<Rightarrow> tstr \<Rightarrow> tstr" where
  "replace_str old new s =
     (if old = [] then new @ concat (map (\<lambda>c. c # new) s) else replace_str_from old new 0 s)"

text \<open>\<open>sep.join(xs)\<close>, \<open>s.split(sep)\<close> for \<open>sep\<close> of one character, and \<open>s.ljust(width)\<close>.\<close>

fun join :: "'a list \<Rightarrow> 'a list list \<Rightarrow> 'a list" where
  "join sep [] = []"
| "join sep [x] = x"
| "join sep (x # y # ys) = x @ sep @ join sep (y # ys)"

fun split_char :: "nat \<Rightarrow> tstr \<Rightarrow> tstr list" where
  "split_char sep [] = [[]]"
| "split_char sep (c # cs) =
     (if fst c = sep then [] # split_char sep cs else cons_head c (split_char sep cs))"

definition ljust :: "tstr \<Rightarrow> nat \<Rightarrow> tstr" where
  "ljust s width = s @ replicate (width - length s) (32, Template)"

text \<open>
  \<open>s.splitlines()\<close>: the line boundaries are the characters 10 to 13, 28 to 30, 133,
  8232 and 8233, with a carriage return and the line feed after it as one boundary, and a
  boundary at the end of the string opens no further line.
\<close>

definition linebreak :: "nat \<Rightarrow> bool" where
  "linebreak c \<longleftrightarrow> (10 \<le> c \<and> c \<le> 13) \<or> (28 \<le> c \<and> c \<le> 30) \<or> c = 133 \<or> c = 8232 \<or> c = 8233"

fun splitlines_from :: "tstr \<Rightarrow> tstr \<Rightarrow> tstr list" where
  "splitlines_from cur [] = (if cur = [] then [] else [cur])"
| "splitlines_from cur [c] = (if linebreak (fst c) then [cur] else [cur @ [c]])"
| "splitlines_from cur (c # d # ds) =
     (if fst c = 13 \<and> fst d = 10 then cur # splitlines_from [] ds
      else if linebreak (fst c) then cur # splitlines_from [] (d # ds)
      else splitlines_from (cur @ [c]) (d # ds))"

definition splitlines :: "tstr \<Rightarrow> tstr list" where
  "splitlines s = splitlines_from [] s"

text \<open>\<open>str(n)\<close> for a number that is not negative.\<close>

fun decimal :: "nat \<Rightarrow> ustr" where
  "decimal n = (if n < 10 then [48 + n] else decimal (n div 10) @ [48 + n mod 10])"

declare decimal.simps [simp del]

text \<open>\<open>escape_html\<close>\<close>

definition escape_html :: "tstr \<Rightarrow> tstr" where
  "escape_html text =
     replace_char 62 (lit (asc ''&gt;''))
       (replace_char 60 (lit (asc ''&lt;''))
          (replace_char 38 (lit (asc ''&amp;'')) text))"

text \<open>
  The regular expressions of \<open>format_for_telegram\<close> are run by the module \<open>re\<close> of the
  Python library. The module is a parameter here: for a pattern and a subject it gives the
  matches that \<open>re.finditer\<close> (and so \<open>re.sub\<close> and \<open>re.split\<close>) goes through, from left to
  right, each as the spans of its groups, group 0 first; and whether \<open>re.fullmatch\<close>
  succeeds. The patterns are the ones the source uses, with their flags.
\<close>

type_synonym span = "nat \<times> nat"

type_synonym rmatch = "span list"

datatype pattern =
    TableRows | CellStrong | CellEmphasis | CellSpaces | SeparatorCell | CodeSpan
  | Header | Bold | ItalicStar | ItalicUnderscore | Strike | ListMarker | Link

record regex =
  re_finditer :: "pattern \<Rightarrow> ustr \<Rightarrow> rmatch list"
  re_fullmatch :: "pattern \<Rightarrow> ustr \<Rightarrow> bool"
  re_isalnum :: "nat \<Rightarrow> bool"

definition span_of :: "rmatch \<Rightarrow> nat \<Rightarrow> span" where
  "span_of m k = (if k < length m then m ! k else (0, 0))"

definition m_start :: "rmatch \<Rightarrow> nat" where
  "m_start m = fst (span_of m 0)"

definition m_end :: "rmatch \<Rightarrow> nat" where
  "m_end m = snd (span_of m 0)"

text \<open>\<open>match.group(k)\<close> of a match in the subject \<open>s\<close>.\<close>

definition group :: "tstr \<Rightarrow> rmatch \<Rightarrow> nat \<Rightarrow> tstr" where
  "group s m k = slice s (fst (span_of m k)) (snd (span_of m k))"

text \<open>
  \<open>re.sub(pattern, repl, s)\<close>: the text between the matches is kept and every match is
  replaced by what \<open>repl\<close> makes of it. \<open>re.split(pattern, s)\<close> for a pattern with one
  group: the text between the matches, with group 1 of each match in between.
\<close>

fun sub_from :: "(rmatch \<Rightarrow> tstr) \<Rightarrow> tstr \<Rightarrow> nat \<Rightarrow> rmatch list \<Rightarrow> tstr" where
  "sub_from repl s pos [] = drop pos s"
| "sub_from repl s pos (m # ms) = slice s pos (m_start m) @ repl m @ sub_from repl s (m_end m) ms"

definition re_sub :: "regex \<Rightarrow> pattern \<Rightarrow> (tstr \<Rightarrow> rmatch \<Rightarrow> tstr) \<Rightarrow> tstr \<Rightarrow> tstr" where
  "re_sub re p repl s = sub_from (repl s) s 0 (re_finditer re p (plain s))"

fun split_from :: "tstr \<Rightarrow> nat \<Rightarrow> rmatch list \<Rightarrow> tstr list" where
  "split_from s pos [] = [drop pos s]"
| "split_from s pos (m # ms) = slice s pos (m_start m) # group s m 1 # split_from s (m_end m) ms"

definition re_split :: "regex \<Rightarrow> pattern \<Rightarrow> tstr \<Rightarrow> tstr list" where
  "re_split re p s = split_from s 0 (re_finditer re p (plain s))"

text \<open>\<open>normalize_cell\<close> and the rows of a table, as \<open>wrap_table\<close> collects them.\<close>

definition normalize_cell :: "regex \<Rightarrow> tstr \<Rightarrow> tstr" where
  "normalize_cell re value =
     (let v1 = re_sub re CellStrong (\<lambda>s m. group s m 2) value;
          v2 = re_sub re CellEmphasis (\<lambda>s m. group s m 2) v1;
          v3 = replace_char 96 [] v2;
          v4 = re_sub re CellSpaces (\<lambda>s m. lit (asc '' '')) v3
      in strip_chars isspace v4)"

definition table_rows :: "regex \<Rightarrow> tstr \<Rightarrow> tstr list list" where
  "table_rows re table =
     (let lines = filter (\<lambda>line. strip_chars isspace line \<noteq> []) (splitlines table);
          cells = map (\<lambda>line. map (normalize_cell re)
                         (split_char 124 (strip_chars (\<lambda>c. c = 124) (strip_chars isspace line))))
                    lines
      in filter (\<lambda>parts. \<not> list_all (\<lambda>p. re_fullmatch re SeparatorCell (plain p)) parts) cells)"

definition placeholder :: "nat \<Rightarrow> ustr" where
  "placeholder n = asc ''%%TABLEBLOCK'' @ decimal n @ asc ''%%''"

text \<open>
  \<open>wrap_table\<close>, on the text of the match and the list \<open>table_blocks\<close>: the placeholder
  it returns and the list with the new block. Every row has a cell, so the largest number
  of cells is the maximum with 0.
\<close>

definition wrap_table :: "regex \<Rightarrow> tstr \<Rightarrow> tstr list \<Rightarrow> tstr \<times> tstr list" where
  "wrap_table re match0 table_blocks =
     (let table = strip_chars (\<lambda>c. c = 10) match0;
          rows = table_rows re table
      in if rows = []
         then (lit (placeholder (length table_blocks)), table_blocks @ [lit (asc ''<pre></pre>'')])
         else (let cols_count = fold max (map length rows) 0;
                   rows' = map (\<lambda>row. row @ replicate (cols_count - length row) []) rows;
                   widths = fold (\<lambda>row ws. map (\<lambda>(w, cell). max w (length cell)) (zip ws row))
                              rows' (replicate cols_count 0);
                   aligned_lines = map (\<lambda>row. join (lit (asc '' | ''))
                                      (map (\<lambda>(cell, w). escape_html (ljust cell w)) (zip row widths)))
                                     rows';
                   joined_lines = join (lit [10]) aligned_lines
               in (lit (placeholder (length table_blocks)),
                   table_blocks @ [lit (asc ''<pre>'') @ joined_lines @ lit (asc ''</pre>'')])))"

text \<open>\<open>re.sub(table_pattern, wrap_table, text)\<close>, with \<open>table_blocks\<close> threaded through.\<close>

fun sub_tables :: "regex \<Rightarrow> tstr \<Rightarrow> nat \<Rightarrow> rmatch list \<Rightarrow> tstr list \<Rightarrow> tstr \<times> tstr list" where
  "sub_tables re s pos [] blocks = (drop pos s, blocks)"
| "sub_tables re s pos (m # ms) blocks =
     (let (ph, blocks1) = wrap_table re (group s m 0) blocks;
          (rest, blocks2) = sub_tables re s (m_end m) ms blocks1
      in (slice s pos (m_start m) @ ph @ rest, blocks2))"

text \<open>
  The one pattern whose groups reach the result without \<open>escape_html\<close> is the pattern of
  a fenced block, which \<open>re.match\<close> applies to a part that begins with the fence: after the
  fence, the first group takes the longest run of word characters, a newline is taken if
  one follows, and the second group runs up to the next fence. It is written out here. No
  shorter run of word characters can lead to a match when the longest one does not, since
  the characters given back are no backticks. A word character is a letter or a digit (of
  Unicode) or the underscore.
\<close>

definition fence :: ustr where
  "fence = [96, 96, 96]"

definition isword :: "regex \<Rightarrow> nat \<Rightarrow> bool" where
  "isword re c \<longleftrightarrow>
     c = 95 \<or> (48 \<le> c \<and> c \<le> 57) \<or> (65 \<le> c \<and> c \<le> 90) \<or> (97 \<le> c \<and> c \<le> 122)
     \<or> (128 \<le> c \<and> re_isalnum re c)"

fun until_fence :: "tstr \<Rightarrow> tstr option" where
  "until_fence [] = None"
| "until_fence (c # cs) =
     (if startswith (plain (c # cs)) fence then Some []
      else map_option ((#) c) (until_fence cs))"

definition code_match :: "regex \<Rightarrow> tstr \<Rightarrow> (tstr \<times> tstr) option" where
  "code_match re part =
     (if startswith (plain part) fence
      then (let rest = drop 3 part;
                lang = takeWhile (\<lambda>x. isword re (fst x)) rest;
                after = dropWhile (\<lambda>x. isword re (fst x)) rest;
                body = (case after of [] \<Rightarrow> [] | c # cs \<Rightarrow> if fst c = 10 then cs else after)
            in map_option (\<lambda>code. (lang, code)) (until_fence body))
      else None)"

text \<open>The branch of the loop over \<open>parts\<close> for a code part.\<close>

definition format_code :: "regex \<Rightarrow> tstr \<Rightarrow> tstr" where
  "format_code re part =
     (if startswith (plain part) fence
      then (case code_match re part of
              Some (lang, code0) \<Rightarrow>
                (let code = escape_html (rstrip_chars isspace code0)
                 in if lang \<noteq> []
                    then lit (asc ''<pre><code class='' @ [34] @ asc ''language-'') @ lang
                           @ lit ([34] @ asc ''>'') @ code @ lit (asc ''</code></pre>'')
                    else lit (asc ''<pre>'') @ code @ lit (asc ''</pre>''))
            | None \<Rightarrow>
                lit (asc ''<pre>'') @ escape_html (slice part 3 (length part - 3))
                  @ lit (asc ''</pre>''))
      else lit (asc ''<code>'') @ escape_html (slice part 1 (length part - 1))
             @ lit (asc ''</code>''))"

definition replace_link :: "tstr \<Rightarrow> rmatch \<Rightarrow> tstr" where
  "replace_link s m =
     (let link_text = group s m 1;
          url = replace_char 34 (lit (asc ''&quot;'')) (group s m 2)
      in lit (asc ''<a href='' @ [34]) @ url @ lit ([34] @ asc ''>'') @ link_text
           @ lit (asc ''</a>''))"

text \<open>
  The rules 3 to 8 of the branch for ordinary text (headers, bold, italic, strike-through,
  list markers, links), and the branch itself, which escapes the part and then applies them.
\<close>

definition emphasis_rules :: "regex \<Rightarrow> tstr \<Rightarrow> tstr" where
  "emphasis_rules re f0 =
     (let f1 = re_sub re Header
                 (\<lambda>s m. lit (asc ''<b>'') @ group s m 1 @ lit (asc ''</b>'' @ [10])) f0;
          f2 = re_sub re Bold (\<lambda>s m. lit (asc ''<b>'') @ group s m 1 @ lit (asc ''</b>'')) f1;
          f3 = re_sub re ItalicStar
                 (\<lambda>s m. lit (asc ''<i>'') @ group s m 1 @ lit (asc ''</i>'')) f2;
          f4 = re_sub re ItalicUnderscore
                 (\<lambda>s m. lit (asc ''<i>'') @ group s m 1 @ lit (asc ''</i>'')) f3;
          f5 = re_sub re Strike (\<lambda>s m. lit (asc ''<s>'') @ group s m 1 @ lit (asc ''</s>'')) f4;
          f6 = re_sub re ListMarker (\<lambda>s m. lit [8226, 32]) f5
      in re_sub re Link replace_link f6)"

definition format_fragment :: "regex \<Rightarrow> tstr \<Rightarrow> tstr" where
  "format_fragment re part = emphasis_rules re (escape_html part)"

text \<open>
  The loop over \<open>parts\<close>: \<open>re.split\<close> gives text and code in turns, the text at the even
  indices.
\<close>

fun format_parts :: "regex \<Rightarrow> tstr list \<Rightarrow> tstr list" where
  "format_parts re [] = []"
| "format_parts re [t] = [format_fragment re t]"
| "format_parts re (t # c # ps) = format_fragment re t # format_code re c # format_parts re ps"

definition format_tagged :: "regex \<Rightarrow> tstr \<Rightarrow> tstr" where
  "format_tagged re text =
     (if text = [] then []
      else (let (text1, table_blocks) =
                  sub_tables re text 0 (re_finditer re TableRows (plain text)) [];
                parts = re_split re CodeSpan text1;
                result_text = concat (format_parts re parts)
            in fold (\<lambda>(i, block) r. replace_str (placeholder i) block r)
                 (enumerate 0 table_blocks) result_text))"

definition format_for_telegram :: "regex \<Rightarrow> ustr \<Rightarrow> ustr" where
  "format_for_telegram re text = plain (format_tagged re (input_text text))"

text \<open>
  A text is \<open>clean\<close> when none of its characters \<open>&\<close>, \<open><\<close> and \<open>>\<close> comes from the
  input.
\<close>

definition clean :: "tstr \<Rightarrow> bool" where
  "clean s \<longleftrightarrow> list_all (\<lambda>x. snd x = Template \<or> (fst x \<noteq> 38 \<and> fst x \<noteq> 60 \<and> fst x \<noteq> 62)) s"

section \<open>Example data\<close>

definition session_example :: user_data where
  "session_example =
     \<lparr>chat_session = Some \<lparr>chat_ident = 0, chat_model = Flash, chat_instruction = Flash\<rparr>,
      last_activity = Some 1000, model = Some Pro, image_model = Some Flash,
      mode = Some Translate,
      photo_task = Some \<lparr>pt_photos = [[10, 20, 30]], pt_message_id = 7, pt_timestamp = 990\<rparr>,
      active_image = Some \<lparr>ai_photo_bytes = [4, 5], ai_timestamp = 995\<rparr>,
      chats_created = 1, messages_count = 0\<rparr>"

definition env_example :: env where
  "env_example =
     \<lparr>env_now = 2000, env_lower = (\<lambda>s. s), env_bot_username = asc ''bot'',
      env_edit_image = (\<lambda>photos prompt k. if prompt = asc ''fail'' then Inl (asc ''500'') else Inr [9]),
      env_generate_image = (\<lambda>prompt k. Inr [8]),
      env_translate = (\<lambda>t. if t = asc ''fail'' then GenRaised (asc ''503'') else GenText (Some (asc ''ok''))),
      env_analyze = (\<lambda>k p. GenText (Some (asc ''ok''))),
      env_multimodal = (\<lambda>k i p. GenText (Some (asc ''ok''))),
      env_summarize = (\<lambda>u. Inr (Inr (asc ''ok''))),
      env_send_message = (\<lambda>c t i. Returned (Some (Response (Some (asc ''ok'')))))\<rparr>"

definition message_example :: "ustr \<Rightarrow> message" where
  "message_example t =
     \<lparr>msg_text = Some t, msg_authorized = True, msg_private = True, msg_from_admin = False,
      msg_reply_to_bot = False, msg_reply_to_photo = False\<rparr>"


definition send_example :: "nat \<Rightarrow> outcome" where
  "send_example i =
     (if i = 0 then Raised (asc ''503 unavailable'')
      else if i = 1 then Returned None
      else Returned (Some (Response (Some (asc ''ok'')))))"


definition fragment_example :: "image \<Rightarrow> fragment" where
  "fragment_example p =
     \<lparr>fr_photo = p, fr_caption = None, fr_user_id = 42, fr_chat_id = 42, fr_message_id = 5,
      fr_authorized = True, fr_media_group_id = Some (asc ''g1''), fr_time = 100\<rparr>"

text \<open>
  An engine that knows one subject: the inline code span at the characters 1 to 4 of the
  text made of \<open><\<close>, a backtick, \<open>>\<close> and a backtick. It finds no other match.
\<close>

definition code_example :: ustr where
  "code_example = [60, 96, 62, 96]"

definition re_example :: regex where
  "re_example =
     \<lparr>re_finditer = (\<lambda>p s. if p = CodeSpan \<and> s = code_example then [[(1, 4), (1, 4)]] else []),
      re_fullmatch = (\<lambda>p s. False),
      re_isalnum = (\<lambda>c. False)\<rparr>"

section \<open>Properties of the session store\<close>

lemma reset_session_fields:
  "chat_session (snd (reset_session now ud)) = Some (fst (reset_session now ud))"
  "chat_ident (fst (reset_session now ud)) = chats_created ud"
  "mode (snd (reset_session now ud)) = None"
  "active_image (snd (reset_session now ud)) = None"
  "model (snd (reset_session now ud)) = model ud"
  "image_model (snd (reset_session now ud)) = image_model ud"
  "photo_task (snd (reset_session now ud)) = photo_task ud"
  "last_activity (snd (reset_session now ud)) = Some now"
  "chats_created (snd (reset_session now ud)) = Suc (chats_created ud)"
  "messages_count (snd (reset_session now ud)) = messages_count ud"
  by (simp_all add: reset_session_def Let_def)

lemma reset_session_fresh:
  assumes "session_wf ud"
  shows "chat_session ud \<noteq> Some (fst (reset_session now ud))"
  using assms by (auto simp: session_wf_def reset_session_def Let_def split: option.splits)

text \<open>
  C8. A session that holds a chat and whose last activity lies more than
  \<open>MEMORY_TIMEOUT\<close> seconds back (a missing \<open>last_activity\<close> counts as time 0): the next
  \<open>get_or_create_session\<close> returns and stores a chat that differs from the previous one.
  The test is made by \<open>get_or_create_session\<close> itself; nothing is assumed of its caller.
\<close>

theorem get_or_create_session_timeout:
  assumes "session_wf ud" and "chat_session ud = Some c"
    and "now - (case last_activity ud of None \<Rightarrow> 0 | Some t \<Rightarrow> t) > MEMORY_TIMEOUT"
  shows "fst (get_or_create_session now ud) \<noteq> c
       \<and> chat_ident (fst (get_or_create_session now ud)) \<noteq> chat_ident c
       \<and> chat_session (snd (get_or_create_session now ud)) = Some (fst (get_or_create_session now ud))"
proof -
  have eq: "get_or_create_session now ud = reset_session now ud"
    using assms(2,3) by (simp add: get_or_create_session_def Let_def)
  have lt: "chat_ident c < chats_created ud"
    using assms(1,2) by (simp add: session_wf_def)
  have "chat_ident (fst (reset_session now ud)) \<noteq> chat_ident c"
    using lt by (simp add: reset_session_fields)
  then show ?thesis
    unfolding eq by (auto simp: reset_session_fields)
qed

theorem get_or_create_session_timeout_witness:
  "session_wf session_example
   \<and> chat_session session_example = Some \<lparr>chat_ident = 0, chat_model = Flash, chat_instruction = Flash\<rparr>
   \<and> 1301 - (case last_activity session_example of None \<Rightarrow> 0 | Some t \<Rightarrow> t) > MEMORY_TIMEOUT
   \<and> fst (get_or_create_session 1301 session_example)
       \<noteq> \<lparr>chat_ident = 0, chat_model = Flash, chat_instruction = Flash\<rparr>"
  using get_or_create_session_timeout
          [of session_example "\<lparr>chat_ident = 0, chat_model = Flash, chat_instruction = Flash\<rparr>" 1301]
  by (simp add: session_example_def session_wf_def MEMORY_TIMEOUT_def)

text \<open>
  C9. \<open>reset_session\<close> stores a chat that the session did not hold before, pops \<open>mode\<close>
  and \<open>active_image\<close>, and leaves \<open>model\<close> and \<open>image_model\<close> as they were.
\<close>

theorem reset_session_effect:
  assumes "session_wf ud"
  shows "chat_session (snd (reset_session now ud)) = Some (fst (reset_session now ud))
       \<and> chat_session ud \<noteq> Some (fst (reset_session now ud))
       \<and> mode (snd (reset_session now ud)) = None
       \<and> active_image (snd (reset_session now ud)) = None
       \<and> model (snd (reset_session now ud)) = model ud
       \<and> image_model (snd (reset_session now ud)) = image_model ud"
  using reset_session_fresh[OF assms] by (simp add: reset_session_fields)

theorem reset_session_effect_witness:
  "session_wf session_example
   \<and> chat_session (snd (reset_session 1001 session_example))
       = Some \<lparr>chat_ident = 1, chat_model = Pro, chat_instruction = Pro\<rparr>
   \<and> mode (snd (reset_session 1001 session_example)) = None
   \<and> active_image (snd (reset_session 1001 session_example)) = None
   \<and> model (snd (reset_session 1001 session_example)) = Some Pro
   \<and> image_model (snd (reset_session 1001 session_example)) = Some Flash"
  using reset_session_effect[of session_example 1001]
  by (simp add: session_example_def session_wf_def reset_session_def get_model_key_def Let_def)

lemma photo_task_if:
  "(c \<Longrightarrow> photo_task (fst (snd a)) = p) \<Longrightarrow> (\<not> c \<Longrightarrow> photo_task (fst (snd b)) = p)
   \<Longrightarrow> photo_task (fst (snd (if c then a else b))) = p"
  by simp

lemma photo_task_case_option:
  "(x = None \<Longrightarrow> photo_task (fst (snd a)) = p)
   \<Longrightarrow> (\<And>v. x = Some v \<Longrightarrow> photo_task (fst (snd (f v))) = p)
   \<Longrightarrow> photo_task (fst (snd (case x of None \<Rightarrow> a | Some v \<Rightarrow> f v))) = p"
  by (cases x) simp_all

lemma fast_commands_photo_task:
  "photo_task (fst (snd (process_fast_commands e ud stripped lower_text))) = photo_task ud"
  unfolding process_fast_commands_def Let_def
  by (intro photo_task_if photo_task_case_option)
     (simp_all (no_asm) add: reset_session_fields)

section \<open>Properties of the retry loop\<close>

lemma retry_loop_policy:
  assumes "int attempt + int k = retries"
  shows "let R = retry_loop send retries le attempt (Suc k);
             last = attempt + (calls R - 1)
         in 1 \<le> calls R \<and> calls R \<le> Suc k
          \<and> length (sleeps R) = calls R - 1
          \<and> (\<forall>i < length (sleeps R).
                case send (attempt + i) of
                  Returned r \<Rightarrow> \<not> usable r \<and> sleeps R ! i = 2
                | TimedOut \<Rightarrow> sleeps R ! i = 2
                | Raised msg \<Rightarrow> has_retry_code msg \<and> sleeps R ! i = 3 * (attempt + i + 1))
          \<and> (int last = retries
               \<or> (case send last of Returned r \<Rightarrow> usable r | TimedOut \<Rightarrow> False
                   | Raised msg \<Rightarrow> \<not> has_retry_code msg))
          \<and> result R = (case send last of
                           Returned r \<Rightarrow> if usable r then Inr r else Inl EmptyResponse
                         | TimedOut \<Rightarrow> Inl Timeout
                         | Raised msg \<Rightarrow> Inl (ApiError msg))"
  using assms
proof (induction k arbitrary: attempt le)
  case 0
  then have "int attempt = retries" by simp
  then show ?case
    by (auto simp: attempt_body_def on_exception_def Let_def split: outcome.splits sum.splits)
next
  case (Suc k)
  have lt: "int attempt < retries" using Suc.prems by simp
  have nxt: "int (Suc attempt) + int k = retries" using Suc.prems by simp
  note IH = Suc.IH[OF nxt, of "Some (error_of (send attempt))", unfolded Let_def]
  show ?case
  proof (cases "attempt_body retries attempt (send attempt)")
    case (Inr r)
    then show ?thesis using lt
      by (auto simp: attempt_body_def on_exception_def Let_def split: outcome.splits sum.splits if_splits)
  next
    case (Inl w)
    have w: "case send attempt of
                  Returned r \<Rightarrow> \<not> usable r \<and> w = 2
                | TimedOut \<Rightarrow> w = 2
                | Raised msg \<Rightarrow> has_retry_code msg \<and> w = 3 * (attempt + 1)"
      using Inl lt
      by (auto simp: attempt_body_def on_exception_def Let_def split: outcome.splits sum.splits if_splits)
    define R' where "R' = retry_loop send retries (Some (error_of (send attempt))) (Suc attempt) (Suc k)"
    have R: "retry_loop send retries le attempt (Suc (Suc k)) = R'\<lparr>sleeps := w # sleeps R', calls := Suc (calls R')\<rparr>"
      using Inl by (simp add: R'_def Let_def)
    note IH' = IH[folded R'_def]
    have c1: "1 \<le> calls R'" using IH' by simp
    have idx: "attempt + (Suc (calls R') - 1) = Suc attempt + (calls R' - 1)" using c1 by simp
    have sl: "\<forall>i < length (w # sleeps R').
                case send (attempt + i) of
                  Returned r \<Rightarrow> \<not> usable r \<and> (w # sleeps R') ! i = 2
                | TimedOut \<Rightarrow> (w # sleeps R') ! i = 2
                | Raised msg \<Rightarrow> has_retry_code msg \<and> (w # sleeps R') ! i = 3 * (attempt + i + 1)"
    proof (intro allI impI)
      fix i assume i: "i < length (w # sleeps R')"
      show "case send (attempt + i) of
                  Returned r \<Rightarrow> \<not> usable r \<and> (w # sleeps R') ! i = 2
                | TimedOut \<Rightarrow> (w # sleeps R') ! i = 2
                | Raised msg \<Rightarrow> has_retry_code msg \<and> (w # sleeps R') ! i = 3 * (attempt + i + 1)"
      proof (cases i)
        case 0
        then show ?thesis using w by (simp split: outcome.splits)
      next
        case (Suc j)
        then have "j < length (sleeps R')" using i by simp
        then have "case send (Suc attempt + j) of
                  Returned r \<Rightarrow> \<not> usable r \<and> sleeps R' ! j = 2
                | TimedOut \<Rightarrow> sleeps R' ! j = 2
                | Raised msg \<Rightarrow> has_retry_code msg \<and> sleeps R' ! j = 3 * (Suc attempt + j + 1)"
          using IH' by blast
        then show ?thesis using Suc by (simp split: outcome.splits)
      qed
    qed
    define S where "S = R'\<lparr>sleeps := w # sleeps R', calls := Suc (calls R')\<rparr>"
    have S: "sleeps S = w # sleeps R'" "calls S = Suc (calls R')" "result S = result R'"
      by (simp_all add: S_def)
    have "1 \<le> calls S \<and> calls S \<le> Suc (Suc k)" using IH' by (simp add: S)
    moreover have "length (sleeps S) = calls S - 1" using IH' c1 by (simp add: S)
    moreover have "\<forall>i < length (sleeps S).
                case send (attempt + i) of
                  Returned r \<Rightarrow> \<not> usable r \<and> sleeps S ! i = 2
                | TimedOut \<Rightarrow> sleeps S ! i = 2
                | Raised msg \<Rightarrow> has_retry_code msg \<and> sleeps S ! i = 3 * (attempt + i + 1)"
      using sl unfolding S by blast
    moreover have "int (attempt + (calls S - 1)) = retries
               \<or> (case send (attempt + (calls S - 1)) of Returned r \<Rightarrow> usable r | TimedOut \<Rightarrow> False
                   | Raised msg \<Rightarrow> \<not> has_retry_code msg)"
      using IH' unfolding S idx by blast
    moreover have "result S = (case send (attempt + (calls S - 1)) of
                           Returned r \<Rightarrow> if usable r then Inr r else Inl EmptyResponse
                         | TimedOut \<Rightarrow> Inl Timeout
                         | Raised msg \<Rightarrow> Inl (ApiError msg))"
      using IH' unfolding S idx by blast
    ultimately show ?thesis
      unfolding Let_def R S_def[symmetric] by blast
  qed
qed

text \<open>
  C6, as the code has it. With \<open>retries\<close> not negative, \<open>send_with_retry\<close> calls
  \<open>chat.send_message\<close> at least once and at most \<open>retries + 1\<close> times (three times for
  \<open>MAX_RETRIES\<close>). Every attempt before the last one failed in a way that is retried: an
  unusable response or a timeout, followed by a sleep of 2 seconds, or an exception whose text
  holds one of the codes 429, 503, 500, followed by a sleep of 3 seconds times the number of
  the attempt. The last attempt is attempt number \<open>retries\<close> or one that is not retried (a
  usable response, or an exception without such a code), and it decides the result: the
  response, or the error of that attempt raised to the caller.
\<close>

theorem send_with_retry_policy:
  assumes "0 \<le> retries"
  shows "let R = send_with_retry send retries;
             last = calls R - 1
         in 1 \<le> calls R \<and> int (calls R) \<le> retries + 1
          \<and> length (sleeps R) = last
          \<and> (\<forall>i < last.
                case send i of
                  Returned r \<Rightarrow> \<not> usable r \<and> sleeps R ! i = 2
                | TimedOut \<Rightarrow> sleeps R ! i = 2
                | Raised msg \<Rightarrow> has_retry_code msg \<and> sleeps R ! i = 3 * (i + 1))
          \<and> (int last = retries
               \<or> (case send last of Returned r \<Rightarrow> usable r | TimedOut \<Rightarrow> False
                   | Raised msg \<Rightarrow> \<not> has_retry_code msg))
          \<and> result R = (case send last of
                           Returned r \<Rightarrow> if usable r then Inr r else Inl EmptyResponse
                         | TimedOut \<Rightarrow> Inl Timeout
                         | Raised msg \<Rightarrow> Inl (ApiError msg))"
proof -
  have n: "nat (retries + 1) = Suc (nat retries)" using assms by simp
  have k: "int 0 + int (nat retries) = retries" using assms by simp
  show ?thesis
  proof -
    define R where "R = retry_loop send retries None 0 (Suc (nat retries))"
    have c: "1 \<le> calls R" "calls R \<le> Suc (nat retries)"
      using retry_loop_policy[OF k, of send None] by (simp_all add: Let_def R_def del: retry_loop.simps)
    have i1: "int (calls R) \<le> retries + 1" using c assms by linarith
    have i2: "int (calls R - Suc 0) = int (calls R) - 1" using c by auto
    show ?thesis
      using retry_loop_policy[OF k, of send None] i1 i2
      unfolding send_with_retry_def n Let_def R_def[symmetric]
      by (simp del: retry_loop.simps cong: outcome.case_cong)
  qed
qed


lemma send_example_run:
  "send_with_retry send_example MAX_RETRIES =
     \<lparr>sleeps = [3, 2], calls = 3, result = Inr (Some (Response (Some (asc ''ok''))))\<rparr>"
proof -
  have n: "nat (MAX_RETRIES + 1) = Suc (Suc (Suc 0))" by (simp add: MAX_RETRIES_def)
  have s0: "send_example 0 = Raised (asc ''503 unavailable'')"
    and s1: "send_example (Suc 0) = Returned None"
    and s2: "send_example (Suc (Suc 0)) = Returned (Some (Response (Some (asc ''ok''))))"
    by (simp_all add: send_example_def)
  have b0: "attempt_body MAX_RETRIES 0 (Raised (asc ''503 unavailable'')) = Inl 3"
    by (simp add: attempt_body_def on_exception_def has_retry_code_def MAX_RETRIES_def asc_def)
  have b1: "attempt_body MAX_RETRIES (Suc 0) (Returned None) = Inl 2"
    by (simp add: attempt_body_def usable_def MAX_RETRIES_def)
  have b2: "attempt_body MAX_RETRIES (Suc (Suc 0)) (Returned (Some (Response (Some (asc ''ok'')))))
              = Inr (Inr (Some (Response (Some (asc ''ok'')))))"
    by (simp add: attempt_body_def usable_def strip_def isspace_def asc_def)
  show ?thesis
    unfolding send_with_retry_def n
    by (simp add: s0 s1 s2 b0 b1 b2 Let_def)
qed

theorem send_with_retry_policy_witness:
  "0 \<le> MAX_RETRIES
   \<and> sleeps (send_with_retry send_example MAX_RETRIES) = [3, 2]
   \<and> calls (send_with_retry send_example MAX_RETRIES) = 3
   \<and> result (send_with_retry send_example MAX_RETRIES) = Inr (Some (Response (Some (asc ''ok''))))"
proof -
  have h: "0 \<le> MAX_RETRIES" by (simp add: MAX_RETRIES_def)
  show ?thesis
    using send_with_retry_policy[OF h, of send_example] h
    by (simp add: send_example_run)
qed

text \<open>
  The claim as stated fails for empty responses: they are retried after a constant 2 seconds,
  not after a delay that grows with the attempt.
\<close>

theorem retry_backoff_counterexample:
  "\<not> (\<exists>c. sleeps (send_with_retry (\<lambda>_. Returned None) MAX_RETRIES) = map (\<lambda>i. (i + 1) * c) [0 ..< 2])"
proof -
  have "sleeps (send_with_retry (\<lambda>_. Returned None) MAX_RETRIES) = [2, 2]"
    by code_simp
  then show ?thesis
    by (auto simp: upt_rec numeral_2_eq_2)
qed

section \<open>Properties of the dispatcher\<close>

lemma not_handled_if:
  "(c \<Longrightarrow> \<not> fst a \<longrightarrow> a = r) \<Longrightarrow> (\<not> c \<Longrightarrow> \<not> fst b \<longrightarrow> b = r)
   \<Longrightarrow> \<not> fst (if c then a else b) \<longrightarrow> (if c then a else b) = r"
  by simp

lemma not_handled_case_option:
  "(x = None \<Longrightarrow> \<not> fst a \<longrightarrow> a = r) \<Longrightarrow> (\<And>v. x = Some v \<Longrightarrow> \<not> fst (f v) \<longrightarrow> f v = r)
   \<Longrightarrow> \<not> fst (case x of None \<Rightarrow> a | Some v \<Rightarrow> f v) \<longrightarrow> (case x of None \<Rightarrow> a | Some v \<Rightarrow> f v) = r"
  by (cases x) simp_all

lemma fast_commands_not_handled:
  "\<not> fst (process_fast_commands e ud stripped lower_text)
   \<longrightarrow> process_fast_commands e ud stripped lower_text = (False, ud, [])"
  unfolding process_fast_commands_def Let_def
  by (intro not_handled_if not_handled_case_option) (simp_all (no_asm))

lemma exit_keyword_cases:
  "l \<in> set exit_keywords \<Longrightarrow>
     l = [1074, 1099, 1093, 1086, 1076] \<or> l = [101, 120, 105, 116] \<or> l = [113, 117, 105, 116]
     \<or> l = [115, 116, 111, 112]"
  by (simp add: exit_keywords_def asc_def)

lemma fast_commands_exit_keyword:
  assumes "l \<in> set exit_keywords" and "s \<noteq> asc ''.''"
  shows "process_fast_commands e ud s l = (False, ud, [])"
  using exit_keyword_cases[OF assms(1)] assms(2)
  by (elim disjE)
     (simp_all add: process_fast_commands_def fast_translate_arg_def fast_youtube_arg_def asc_def
        kw_pr_def kw_perevod_def kw_yu_def kw_yutub_def kw_p_def kw_pro_def kw_f_def kw_k_def
        kw_kartinka_def kw_flesh_def kw_r_def kw_redaktirovat_def)

lemma handle_message_dispatch:
  assumes "msg_text m = Some text" and "text \<noteq> []" and "msg_authorized m"
    and "msg_private m \<or> msg_reply_to_bot m \<or> (env_bot_username e \<noteq> [] \<and> contains text (env_bot_username e))"
    and "process_photo_edit_prompt e ud text = (False, ud, [])"
    and "process_exit_commands ud (env_lower e (strip text)) = (False, ud, [])"
    and "process_fast_commands e ud (strip text) (env_lower e (strip text)) = (False, ud, [])"
    and "\<not> msg_reply_to_photo m"
  shows "handle_message e ud m =
     (let ud5 = ud\<lparr>messages_count := messages_count ud + 1\<rparr>
       in if mode ud5 = Some ImageGen then process_image_gen_mode e (ud5\<lparr>mode := None\<rparr>) text
          else if mode ud5 = Some YoutubeMode then process_youtube_mode e (ud5\<lparr>mode := None\<rparr>) text
          else if mode ud5 = Some Translate then process_translation_mode e ud5 text
          else chat_turn e ud5 m text)"
  using assms(1-4)
  by (auto simp add: handle_message_def Let_def assms(5-8) process_reply_to_photo_def
      simp del: process_fast_commands_def)

lemmas kw_defs = kw_pr_def kw_perevod_def kw_yu_def kw_yutub_def kw_p_def kw_pro_def kw_f_def
  kw_k_def kw_kartinka_def kw_flesh_def kw_r_def kw_redaktirovat_def

lemma strip_examples:
  "strip (asc ''hello'') = asc ''hello''"
  "strip (asc ''fail'') = asc ''fail''"
  "strip (asc ''exit'') = asc ''exit''"
  "strip (asc ''ok'') = asc ''ok''"
  by (simp_all add: strip_def isspace_def asc_def)

lemma fast_examples:
  "process_fast_commands e ud (asc ''hello'') (asc ''hello'') = (False, ud, [])"
  "process_fast_commands e ud (asc ''fail'') (asc ''fail'') = (False, ud, [])"
  by (simp_all add: process_fast_commands_def fast_translate_arg_def fast_youtube_arg_def asc_def
        kw_defs)

lemma exit_examples:
  "asc ''hello'' \<notin> set exit_keywords"
  "asc ''fail'' \<notin> set exit_keywords"
  "asc ''exit'' \<in> set exit_keywords"
  by (simp_all add: exit_keywords_def asc_def)

lemma nonempty_examples:
  "asc ''hello'' \<noteq> []" "asc ''fail'' \<noteq> []" "asc ''exit'' \<noteq> []" "asc ''ok'' \<noteq> []"
  "asc ''exit'' \<noteq> asc ''.''"
  by (simp_all add: asc_def)

lemma message_example_fields:
  "msg_text (message_example t) = Some t"
  "msg_authorized (message_example t)"
  "msg_private (message_example t) \<or> msg_reply_to_bot (message_example t)
     \<or> (env_bot_username e \<noteq> [] \<and> contains t (env_bot_username e))"
  "\<not> msg_reply_to_photo (message_example t)"
  "msg_private (message_example t)"
  "\<not> msg_from_admin (message_example t)"
  by (simp_all add: message_example_def)

lemma env_example_fields:
  "env_lower env_example t = t"
  "env_now env_example = 2000"
  "env_bot_username env_example = asc ''bot''"
  "env_translate env_example (asc ''hello'') = GenText (Some (asc ''ok''))"
  "env_translate env_example (asc ''fail'') = GenRaised (asc ''503'')"
  "env_edit_image env_example ps (asc ''ok'') k = Inr [9]"
  "env_edit_image env_example ps (asc ''fail'') k = Inl (asc ''500'')"
  "env_send_message env_example c t i = Returned (Some (Response (Some (asc ''ok''))))"
  by (simp_all add: env_example_def asc_def)

lemma translate_example:
  "handle_message env_example session_example (message_example (asc ''hello''))
     = process_translation_mode env_example (session_example\<lparr>messages_count := 1\<rparr>) (asc ''hello'')"
proof -
  have ed: "process_photo_edit_prompt env_example session_example (asc ''hello'') = (False, session_example, [])"
    by (simp add: process_photo_edit_prompt_def session_example_def)
  have ex: "process_exit_commands session_example (env_lower env_example (strip (asc ''hello'')))
              = (False, session_example, [])"
    by (simp add: process_exit_commands_def env_example_fields strip_examples exit_examples)
  have fa: "process_fast_commands env_example session_example (strip (asc ''hello''))
               (env_lower env_example (strip (asc ''hello''))) = (False, session_example, [])"
    by (simp add: env_example_fields strip_examples fast_examples)
  show ?thesis
    using handle_message_dispatch[OF message_example_fields(1) nonempty_examples(1)
            message_example_fields(2) message_example_fields(3) ed ex fa message_example_fields(4)]
    by (simp add: Let_def session_example_def)
qed

lemma chat_turn_session:
  assumes "active_image ud = None"
  shows "fst (chat_turn e ud m t) = snd (get_or_create_session (env_now e) ud)"
  using assms by (simp add: chat_turn_def Let_def split: prod.splits sum.splits)

lemma exit_example:
  "handle_message env_example (session_example\<lparr>mode := None, active_image := None\<rparr>)
     (message_example (asc ''exit''))
   = chat_turn env_example (session_example\<lparr>mode := None, active_image := None, messages_count := 1\<rparr>)
       (message_example (asc ''exit'')) (asc ''exit'')"
proof -
  let ?ud = "session_example\<lparr>mode := None, active_image := None\<rparr>"
  have ed: "process_photo_edit_prompt env_example ?ud (asc ''exit'') = (False, ?ud, [])"
    by (simp add: process_photo_edit_prompt_def)
  have ex: "process_exit_commands ?ud (env_lower env_example (strip (asc ''exit''))) = (False, ?ud, [])"
    by (simp add: process_exit_commands_def)
  have fa: "process_fast_commands env_example ?ud (strip (asc ''exit''))
               (env_lower env_example (strip (asc ''exit''))) = (False, ?ud, [])"
    by (rule fast_commands_exit_keyword)
       (simp_all add: env_example_fields strip_examples exit_examples nonempty_examples)
  show ?thesis
    using handle_message_dispatch[OF message_example_fields(1) nonempty_examples(3)
            message_example_fields(2) message_example_fields(3) ed ex fa message_example_fields(4)]
    by (simp add: Let_def session_example_def)
qed

lemma get_or_create_session_fields:
  "last_activity (snd (get_or_create_session now ud)) = Some now"
  "photo_task (snd (get_or_create_session now ud)) = photo_task ud"
  "messages_count (snd (get_or_create_session now ud)) = messages_count ud"
  "mode ud = None \<Longrightarrow> mode (snd (get_or_create_session now ud)) = None"
  by (simp_all add: get_or_create_session_def reset_session_fields Let_def split: option.splits)

lemma chat_turn_persistent:
  assumes "active_image ud = None"
  shows "fst (chat_turn e ud m t) = snd (get_or_create_session (env_now e) ud)"
  using assms by (simp add: chat_turn_def Let_def split: prod.splits sum.splits)

lemma chat_turn_expired:
  assumes "active_image ud = Some ai" and "env_now e - ai_timestamp ai > IMAGE_CONTEXT_TIMEOUT"
  shows "fst (chat_turn e ud m t) = snd (get_or_create_session (env_now e) (ud\<lparr>active_image := None\<rparr>))"
  using assms by (simp add: chat_turn_def Let_def split: prod.splits sum.splits)

lemma chat_turn_multimodal:
  assumes "active_image ud = Some ai" and "\<not> env_now e - ai_timestamp ai > IMAGE_CONTEXT_TIMEOUT"
  shows "fst (chat_turn e ud m t) = ud"
  using assms by (simp add: chat_turn_def Let_def split: gen_outcome.splits)

text \<open>
  C1, as the code has it. A text message that is addressed to the bot and that none of the
  earlier steps takes (it is no exit keyword, no fast command, no reply to a photo): in mode
  \<open>image_gen\<close> it is the image prompt and the mode is popped before the image is made; in
  mode \<open>youtube_mode\<close> it is the video reference and the mode is popped before the
  summary is made; in mode \<open>translate\<close> it is the text to translate and the mode is popped
  once the translation has been sent, and stays only when the translation call fails.
\<close>

theorem mode_consumption:
  assumes "msg_text m = Some text" and "text \<noteq> []" and "msg_authorized m"
    and "msg_private m \<or> msg_reply_to_bot m \<or> (env_bot_username e \<noteq> [] \<and> contains text (env_bot_username e))"
    and "env_lower e (strip text) \<notin> set exit_keywords"
    and "\<not> fst (process_fast_commands e ud (strip text) (env_lower e (strip text)))"
    and "\<not> msg_reply_to_photo m"
  shows "(mode ud = Some ImageGen \<longrightarrow>
            handle_message e ud m =
              (ud\<lparr>messages_count := messages_count ud + 1, mode := None\<rparr>,
               handle_image_generation e (ud\<lparr>messages_count := messages_count ud + 1, mode := None\<rparr>)
                 (strip text)))
       \<and> (mode ud = Some YoutubeMode \<longrightarrow>
            handle_message e ud m =
              (ud\<lparr>messages_count := messages_count ud + 1, mode := None\<rparr>,
               youtube_replies e text (\<lambda>err. R_YoutubeError (take 100 err))))
       \<and> (mode ud = Some Translate \<longrightarrow>
            handle_message e ud m = process_translation_mode e (ud\<lparr>messages_count := messages_count ud + 1\<rparr>) text
            \<and> mode (fst (handle_message e ud m)) =
                (case env_translate e text of GenText r \<Rightarrow> None | GenTimeout \<Rightarrow> Some Translate
                 | GenRaised err \<Rightarrow> Some Translate))"
proof -
  have fast: "process_fast_commands e ud (strip text) (env_lower e (strip text)) = (False, ud, [])"
    using assms(6) fast_commands_not_handled by blast
  have ex: "process_exit_commands ud (env_lower e (strip text)) = (False, ud, [])"
    using assms(5) by (simp add: process_exit_commands_def)
  {
    assume md: "mode ud = Some ImageGen \<or> mode ud = Some YoutubeMode \<or> mode ud = Some Translate"
    then have ed: "process_photo_edit_prompt e ud text = (False, ud, [])"
      by (auto simp: process_photo_edit_prompt_def)
    note handle_message_dispatch[OF assms(1-4) ed ex fast assms(7)]
  }
  note disp = this
  show ?thesis
    by (auto simp: disp Let_def process_image_gen_mode_def process_youtube_mode_def
          process_translation_mode_def split: gen_outcome.splits)
qed

theorem mode_consumption_witness:
  "mode (fst (handle_message env_example (session_example\<lparr>mode := Some ImageGen\<rparr>)
                (message_example (asc ''hello'')))) = None
   \<and> mode (fst (handle_message env_example (session_example\<lparr>mode := Some YoutubeMode\<rparr>)
                (message_example (asc ''hello'')))) = None
   \<and> mode (fst (handle_message env_example session_example (message_example (asc ''hello'')))) = None
   \<and> mode (fst (handle_message env_example session_example (message_example (asc ''fail''))))
       = Some Translate"
proof -
  have a5: "env_lower env_example (strip (asc ''hello'')) \<notin> set exit_keywords"
    and b5: "env_lower env_example (strip (asc ''fail'')) \<notin> set exit_keywords"
    by (simp_all add: env_example_fields strip_examples exit_examples)
  have a6: "\<And>ud. \<not> fst (process_fast_commands env_example ud (strip (asc ''hello''))
                        (env_lower env_example (strip (asc ''hello''))))"
    and b6: "\<And>ud. \<not> fst (process_fast_commands env_example ud (strip (asc ''fail''))
                        (env_lower env_example (strip (asc ''fail''))))"
    by (simp_all add: env_example_fields strip_examples fast_examples)
  have m: "mode session_example = Some Translate" by (simp add: session_example_def)
  note h = message_example_fields
  show ?thesis
    using mode_consumption[OF h(1) nonempty_examples(1) h(2) h(3) a5 a6 h(4),
            of "session_example\<lparr>mode := Some ImageGen\<rparr>"]
          mode_consumption[OF h(1) nonempty_examples(1) h(2) h(3) a5 a6 h(4),
            of "session_example\<lparr>mode := Some YoutubeMode\<rparr>"]
          mode_consumption[OF h(1) nonempty_examples(1) h(2) h(3) a5 a6 h(4), of session_example]
          mode_consumption[OF h(1) nonempty_examples(2) h(2) h(3) b5 b6 h(4), of session_example]
    by (simp add: m env_example_fields process_translation_mode_def)
qed

text \<open>
  The claim as stated fails for the translate mode: one translated message clears it.
\<close>

theorem mode_consumption_counterexample:
  "mode session_example = Some Translate
   \<and> mode (fst (handle_message env_example session_example (message_example (asc ''hello'')))) = None"
  by (simp add: translate_example process_translation_mode_def env_example_fields)
     (simp add: session_example_def)

text \<open>
  C2, as the code has it. In mode \<open>awaiting_edit_prompt\<close> the whole text is the edit
  instruction. Without a pending photo task the mode is popped and the loss of the data is
  reported, with no edit attempted. With a pending photo task a successful edit pops both
  \<open>mode\<close> and \<open>photo_task\<close>; a failed edit pops \<open>mode\<close> only and keeps
  \<open>photo_task\<close>.
\<close>

theorem edit_prompt_consumption:
  assumes "msg_text m = Some text" and "text \<noteq> []" and "msg_authorized m"
    and "msg_private m \<or> msg_reply_to_bot m \<or> (env_bot_username e \<noteq> [] \<and> contains text (env_bot_username e))"
    and "mode ud = Some AwaitingEditPrompt"
  shows "(photo_task ud = None \<longrightarrow> handle_message e ud m = (ud\<lparr>mode := None\<rparr>, [R_DataLost]))
       \<and> (\<forall>task. photo_task ud = Some task \<longrightarrow>
            (case env_edit_image e (pt_photos task) text (get_image_model ud) of
               Inr result_data \<Rightarrow>
                 handle_message e ud m =
                   (ud\<lparr>mode := None, photo_task := None\<rparr>,
                    [R_EditCaption (get_image_model ud) (length (pt_photos task)) text,
                     R_Photo result_data])
             | Inl err \<Rightarrow>
                 handle_message e ud m =
                   (ud\<lparr>mode := None\<rparr>, [R_GeminiError ''IMAGE_EDIT_BTN'' err])))"
  using assms
  by (auto simp: handle_message_def process_photo_edit_prompt_def Let_def split: sum.splits
      simp del: process_fast_commands_def)

theorem edit_prompt_consumption_witness:
  "handle_message env_example (session_example\<lparr>mode := Some AwaitingEditPrompt\<rparr>)
      (message_example (asc ''ok''))
     = (session_example\<lparr>mode := None, photo_task := None\<rparr>,
        [R_EditCaption Flash 1 (asc ''ok''), R_Photo [9]])
   \<and> handle_message env_example (session_example\<lparr>mode := Some AwaitingEditPrompt\<rparr>)
      (message_example (asc ''fail''))
     = (session_example\<lparr>mode := None\<rparr>, [R_GeminiError ''IMAGE_EDIT_BTN'' (asc ''500'')])
   \<and> handle_message env_example (session_example\<lparr>mode := Some AwaitingEditPrompt, photo_task := None\<rparr>)
      (message_example (asc ''ok''))
     = (session_example\<lparr>mode := None, photo_task := None\<rparr>, [R_DataLost])"
proof -
  note h = message_example_fields
  let ?ud = "session_example\<lparr>mode := Some AwaitingEditPrompt\<rparr>"
  let ?ud' = "session_example\<lparr>mode := Some AwaitingEditPrompt, photo_task := None\<rparr>"
  have m: "mode ?ud = Some AwaitingEditPrompt" and m': "mode ?ud' = Some AwaitingEditPrompt"
    by simp_all
  have pt: "photo_task ?ud = Some \<lparr>pt_photos = [[10, 20, 30]], pt_message_id = 7, pt_timestamp = 990\<rparr>"
    and pt': "photo_task ?ud' = None"
    and im: "get_image_model ?ud = Flash"
    by (simp_all add: session_example_def get_image_model_def)
  have t1: "handle_message env_example ?ud (message_example (asc ''ok''))
              = (?ud\<lparr>mode := None, photo_task := None\<rparr>,
                 [R_EditCaption Flash 1 (asc ''ok''), R_Photo [9]])"
    using edit_prompt_consumption[where e = env_example and ud = "?ud",
            OF h(1) nonempty_examples(4) h(2) h(3) m]
    by (simp add: pt im env_example_fields)
  have t2: "handle_message env_example ?ud (message_example (asc ''fail''))
              = (?ud\<lparr>mode := None\<rparr>, [R_GeminiError ''IMAGE_EDIT_BTN'' (asc ''500'')])"
    using edit_prompt_consumption[where e = env_example and ud = "?ud",
            OF h(1) nonempty_examples(2) h(2) h(3) m]
    by (simp add: pt im env_example_fields)
  have t3: "handle_message env_example ?ud' (message_example (asc ''ok''))
              = (?ud'\<lparr>mode := None\<rparr>, [R_DataLost])"
    using edit_prompt_consumption[where e = env_example and ud = "?ud'",
            OF h(1) nonempty_examples(4) h(2) h(3) m']
    by (simp add: pt')
  show ?thesis
    by (simp add: t1 t2 t3)
qed

text \<open>
  The claim as stated fails when the edit fails: the pending photo task is still there.
\<close>

theorem edit_prompt_counterexample:
  "mode (session_example\<lparr>mode := Some AwaitingEditPrompt\<rparr>) = Some AwaitingEditPrompt
   \<and> photo_task (session_example\<lparr>mode := Some AwaitingEditPrompt\<rparr>) \<noteq> None
   \<and> env_edit_image env_example [[10, 20, 30]] (asc ''fail'') Flash = Inl (asc ''500'')
   \<and> photo_task (fst (handle_message env_example (session_example\<lparr>mode := Some AwaitingEditPrompt\<rparr>)
                        (message_example (asc ''fail''))))
       = Some \<lparr>pt_photos = [[10, 20, 30]], pt_message_id = 7, pt_timestamp = 990\<rparr>"
  by (simp add: handle_message_def message_example_def process_photo_edit_prompt_def
        env_example_fields session_example_def Let_def nonempty_examples get_image_model_def)

text \<open>
  C3, as the code has it. With no mode set, the exit step \<open>_process_exit_commands\<close> leaves
  the session as it is and returns \<open>False\<close>. The dispatcher then goes on: an exit keyword
  that is addressed to the bot, is not \<open>.\<close> after stripping and is no reply to a photo ends
  as an ordinary conversational turn with the message counter incremented, and the mode stays
  unset. With an unexpired active image the turn is a one-shot multimodal call and nothing
  else of the session changes. Otherwise an expired active image is dropped and the session
  is the one \<open>get_or_create_session\<close> leaves, with \<open>last_activity\<close> set to the
  current time.
\<close>

theorem exit_without_mode:
  assumes "mode ud = None"
  shows "process_exit_commands ud lower_text = (False, ud, [])
       \<and> (msg_text m = Some text \<and> text \<noteq> [] \<and> msg_authorized m
           \<and> (msg_private m \<or> msg_reply_to_bot m
                \<or> (env_bot_username e \<noteq> [] \<and> contains text (env_bot_username e)))
           \<and> env_lower e (strip text) \<in> set exit_keywords \<and> strip text \<noteq> asc ''.''
           \<and> \<not> msg_reply_to_photo m
          \<longrightarrow> handle_message e ud m = chat_turn e (ud\<lparr>messages_count := messages_count ud + 1\<rparr>) m text
            \<and> mode (fst (handle_message e ud m)) = None
            \<and> (case active_image ud of
                  None \<Rightarrow>
                    fst (handle_message e ud m) =
                      snd (get_or_create_session (env_now e)
                             (ud\<lparr>messages_count := messages_count ud + 1\<rparr>))
                    \<and> last_activity (fst (handle_message e ud m)) = Some (env_now e)
                | Some ai \<Rightarrow>
                    if env_now e - ai_timestamp ai > IMAGE_CONTEXT_TIMEOUT
                    then fst (handle_message e ud m) =
                           snd (get_or_create_session (env_now e)
                                  (ud\<lparr>messages_count := messages_count ud + 1, active_image := None\<rparr>))
                         \<and> last_activity (fst (handle_message e ud m)) = Some (env_now e)
                    else fst (handle_message e ud m) = ud\<lparr>messages_count := messages_count ud + 1\<rparr>))"
proof -
  have ex: "\<And>l. process_exit_commands ud l = (False, ud, [])"
    using assms by (simp add: process_exit_commands_def)
  have ed: "process_photo_edit_prompt e ud text = (False, ud, [])"
    using assms by (simp add: process_photo_edit_prompt_def)
  {
    assume pre: "msg_text m = Some text \<and> text \<noteq> [] \<and> msg_authorized m
           \<and> (msg_private m \<or> msg_reply_to_bot m
                \<or> (env_bot_username e \<noteq> [] \<and> contains text (env_bot_username e)))
           \<and> env_lower e (strip text) \<in> set exit_keywords \<and> strip text \<noteq> asc ''.''
           \<and> \<not> msg_reply_to_photo m"
    let ?ud = "ud\<lparr>messages_count := messages_count ud + 1\<rparr>"
    have fa: "process_fast_commands e ud (strip text) (env_lower e (strip text)) = (False, ud, [])"
      using pre by (intro fast_commands_exit_keyword) simp_all
    have hm: "handle_message e ud m = chat_turn e ?ud m text"
      using handle_message_dispatch[of m "text" e ud, OF _ _ _ _ ed ex fa] pre assms
      by (simp add: Let_def)
    have md: "mode ?ud = None" using assms by simp
    have "mode (fst (handle_message e ud m)) = None
            \<and> (case active_image ud of
                  None \<Rightarrow>
                    fst (handle_message e ud m) = snd (get_or_create_session (env_now e) ?ud)
                    \<and> last_activity (fst (handle_message e ud m)) = Some (env_now e)
                | Some ai \<Rightarrow>
                    if env_now e - ai_timestamp ai > IMAGE_CONTEXT_TIMEOUT
                    then fst (handle_message e ud m) =
                           snd (get_or_create_session (env_now e)
                                  (ud\<lparr>messages_count := messages_count ud + 1, active_image := None\<rparr>))
                         \<and> last_activity (fst (handle_message e ud m)) = Some (env_now e)
                    else fst (handle_message e ud m) = ?ud)"
    proof (cases "active_image ud")
      case None
      then have "fst (chat_turn e ?ud m text) = snd (get_or_create_session (env_now e) ?ud)"
        by (intro chat_turn_persistent) simp
      then show ?thesis using None md by (simp add: hm get_or_create_session_fields)
    next
      case (Some ai)
      show ?thesis
      proof (cases "env_now e - ai_timestamp ai > IMAGE_CONTEXT_TIMEOUT")
        case True
        have "fst (chat_turn e ?ud m text)
                = snd (get_or_create_session (env_now e) (?ud\<lparr>active_image := None\<rparr>))"
          using Some True by (intro chat_turn_expired[where ai = ai]) simp_all
        then show ?thesis using Some True md by (simp add: hm get_or_create_session_fields)
      next
        case False
        have "fst (chat_turn e ?ud m text) = ?ud"
          using Some False by (intro chat_turn_multimodal[where ai = ai]) simp_all
        then show ?thesis using Some False md by (simp add: hm)
      qed
    qed
    note this hm
  }
  then show ?thesis using ex by blast
qed

theorem exit_without_mode_witness:
  "mode (session_example\<lparr>mode := None\<rparr>) = None
   \<and> process_exit_commands (session_example\<lparr>mode := None\<rparr>) (asc ''exit'')
       = (False, session_example\<lparr>mode := None\<rparr>, [])
   \<and> handle_message env_example (session_example\<lparr>mode := None\<rparr>) (message_example (asc ''exit''))
       = chat_turn env_example (session_example\<lparr>mode := None, messages_count := 1\<rparr>)
           (message_example (asc ''exit'')) (asc ''exit'')
   \<and> last_activity (fst (handle_message env_example (session_example\<lparr>mode := None\<rparr>)
         (message_example (asc ''exit'')))) = Some 2000
   \<and> last_activity (fst (handle_message env_example
         (session_example\<lparr>mode := None, active_image := None\<rparr>)
         (message_example (asc ''exit'')))) = Some 2000
   \<and> fst (handle_message env_example
         (session_example\<lparr>mode := None,
            active_image := Some \<lparr>ai_photo_bytes = [4, 5], ai_timestamp = 1900\<rparr>\<rparr>)
         (message_example (asc ''exit'')))
       = session_example\<lparr>mode := None,
            active_image := Some \<lparr>ai_photo_bytes = [4, 5], ai_timestamp = 1900\<rparr>,
            messages_count := 1\<rparr>"
proof -
  let ?a = "session_example\<lparr>mode := None\<rparr>"
  let ?b = "session_example\<lparr>mode := None, active_image := None\<rparr>"
  let ?c = "session_example\<lparr>mode := None,
              active_image := Some \<lparr>ai_photo_bytes = [4, 5], ai_timestamp = 1900\<rparr>\<rparr>"
  have m: "mode ?a = None" "mode ?b = None" "mode ?c = None" by simp_all
  have mc: "messages_count session_example = 0"
    and ai: "active_image session_example = Some \<lparr>ai_photo_bytes = [4, 5], ai_timestamp = 995\<rparr>"
    by (simp_all add: session_example_def)
  note pre = message_example_fields env_example_fields strip_examples exit_examples
    nonempty_examples
  have ante: "\<And>ud. msg_text (message_example (asc ''exit'')) = Some (asc ''exit'') \<and> asc ''exit'' \<noteq> []
      \<and> msg_authorized (message_example (asc ''exit''))
      \<and> (msg_private (message_example (asc ''exit'')) \<or> msg_reply_to_bot (message_example (asc ''exit''))
           \<or> (env_bot_username env_example \<noteq> []
                \<and> contains (asc ''exit'') (env_bot_username env_example)))
      \<and> env_lower env_example (strip (asc ''exit'')) \<in> set exit_keywords
      \<and> strip (asc ''exit'') \<noteq> asc ''.''
      \<and> \<not> msg_reply_to_photo (message_example (asc ''exit''))"
    by (simp add: pre)
  note ta = mp[OF conjunct2[OF exit_without_mode[OF m(1)]] ante]
  note tb = mp[OF conjunct2[OF exit_without_mode[OF m(2)]] ante]
  note tc = mp[OF conjunct2[OF exit_without_mode[OF m(3)]] ante]
  have a1: "handle_message env_example ?a (message_example (asc ''exit''))
             = chat_turn env_example (?a\<lparr>messages_count := 1\<rparr>) (message_example (asc ''exit'')) (asc ''exit'')"
    using ta[THEN conjunct1] by (simp add: mc)
  have a2: "last_activity (fst (handle_message env_example ?a (message_example (asc ''exit'')))) = Some 2000"
    using ta[THEN conjunct2, THEN conjunct2]
    by (simp add: ai env_example_fields IMAGE_CONTEXT_TIMEOUT_def get_or_create_session_fields)
  have b: "last_activity (fst (handle_message env_example ?b (message_example (asc ''exit'')))) = Some 2000"
    using tb[THEN conjunct2, THEN conjunct2]
    by (simp add: env_example_fields get_or_create_session_fields)
  have c: "fst (handle_message env_example ?c (message_example (asc ''exit''))) = ?c\<lparr>messages_count := 1\<rparr>"
    using tc[THEN conjunct2, THEN conjunct2]
    by (simp add: env_example_fields IMAGE_CONTEXT_TIMEOUT_def mc)
  have p: "process_exit_commands ?a (asc ''exit'') = (False, ?a, [])"
    using exit_without_mode[OF m(1), of "asc ''exit''"] by simp
  show ?thesis using a1 a2 b c p by (simp del: One_nat_def)
qed

text \<open>
  The claim as stated fails for the dispatcher as a whole: the exit keyword is sent to the
  chat, which refreshes \<open>last_activity\<close> and here replaces the idle chat.
\<close>

theorem exit_without_mode_counterexample:
  "mode (session_example\<lparr>mode := None, active_image := None\<rparr>) = None
   \<and> env_lower env_example (strip (asc ''exit'')) \<in> set exit_keywords
   \<and> last_activity (session_example\<lparr>mode := None, active_image := None\<rparr>) = Some 1000
   \<and> last_activity (fst (handle_message env_example
         (session_example\<lparr>mode := None, active_image := None\<rparr>) (message_example (asc ''exit''))))
       = Some 2000
   \<and> chat_session (fst (handle_message env_example
         (session_example\<lparr>mode := None, active_image := None\<rparr>) (message_example (asc ''exit''))))
       \<noteq> chat_session (session_example\<lparr>mode := None, active_image := None\<rparr>)"
  by (simp add: exit_example chat_turn_session env_example_fields strip_examples exit_examples)
     (simp add: get_or_create_session_def reset_session_def session_example_def MEMORY_TIMEOUT_def
        get_model_key_def Let_def)

section \<open>The pending photo task under a reset\<close>

lemma chat_turn_photo_task: "photo_task (fst (chat_turn e ud m t)) = photo_task ud"
proof (cases "active_image ud")
  case None
  then show ?thesis by (simp add: chat_turn_persistent get_or_create_session_fields)
next
  case (Some ai)
  show ?thesis
  proof (cases "env_now e - ai_timestamp ai > IMAGE_CONTEXT_TIMEOUT")
    case True
    then show ?thesis using Some
      by (simp add: chat_turn_expired[where ai = ai] get_or_create_session_fields)
  next
    case False
    then show ?thesis using Some by (simp add: chat_turn_multimodal[where ai = ai])
  qed
qed

lemma exit_commands_photo_task:
  "photo_task (fst (snd (process_exit_commands ud l))) = photo_task ud"
  by (simp add: process_exit_commands_def split: option.splits)

lemma exit_commands_not_handled:
  "\<not> fst (process_exit_commands ud l) \<Longrightarrow> process_exit_commands ud l = (False, ud, [])"
  by (simp add: process_exit_commands_def split: option.splits if_splits)

lemma reply_to_photo_photo_task:
  "photo_task (fst (snd (process_reply_to_photo e ud m t))) = photo_task ud"
  by (simp add: process_reply_to_photo_def Let_def split: gen_outcome.splits)

lemma reply_to_photo_not_handled:
  "\<not> fst (process_reply_to_photo e ud m t) \<Longrightarrow> process_reply_to_photo e ud m t = (False, ud, [])"
  by (simp add: process_reply_to_photo_def Let_def split: gen_outcome.splits if_splits)

lemma mode_steps_photo_task:
  "photo_task (fst (process_image_gen_mode e ud t)) = photo_task ud"
  "photo_task (fst (process_youtube_mode e ud t)) = photo_task ud"
  "photo_task (fst (process_translation_mode e ud t)) = photo_task ud"
  by (simp_all add: process_image_gen_mode_def process_youtube_mode_def
        process_translation_mode_def split: gen_outcome.splits)

lemma handle_message_photo_task:
  assumes "mode ud \<noteq> Some AwaitingEditPrompt"
  shows "photo_task (fst (handle_message e ud m)) = photo_task ud"
proof (cases "msg_text m")
  case None
  then show ?thesis by (simp add: handle_message_def)
next
  case (Some t)
  have ed: "process_photo_edit_prompt e ud t = (False, ud, [])"
    using assms by (simp add: process_photo_edit_prompt_def)
  define l where "l = env_lower e (strip t)"
  define r1 where "r1 = process_exit_commands ud l"
  define r2 where "r2 = process_fast_commands e ud (strip t) l"
  define r3 where "r3 = process_reply_to_photo e ud m t"
  define B where "B = (case r1 of
        (True, ud2, rs) \<Rightarrow> (ud2, rs)
      | (False, ud2, _) \<Rightarrow>
      (case process_fast_commands e ud2 (strip t) l of
        (True, ud3, rs) \<Rightarrow> (ud3, rs)
      | (False, ud3, _) \<Rightarrow>
      (case process_reply_to_photo e ud3 m t of
        (True, ud4, rs) \<Rightarrow> (ud4, rs)
      | (False, ud4, _) \<Rightarrow>
      (let ud5 = ud4\<lparr>messages_count := messages_count ud4 + 1\<rparr>
       in if mode ud5 = Some ImageGen then process_image_gen_mode e (ud5\<lparr>mode := None\<rparr>) t
          else if mode ud5 = Some YoutubeMode then process_youtube_mode e (ud5\<lparr>mode := None\<rparr>) t
          else if mode ud5 = Some Translate then process_translation_mode e ud5 t
          else chat_turn e ud5 m t))))"
  have body: "photo_task (fst B) = photo_task ud"
  proof (cases "fst r1")
    case True
    then obtain u rs where "r1 = (True, u, rs)" by (cases r1) auto
    moreover from this have "photo_task u = photo_task ud"
      using exit_commands_photo_task[of ud l] by (simp add: r1_def)
    ultimately show ?thesis by (simp add: B_def)
  next
    case False
    then have e1: "r1 = (False, ud, [])"
      using exit_commands_not_handled[of ud l] by (simp add: r1_def)
    show ?thesis
    proof (cases "fst r2")
      case True
      then obtain u rs where "r2 = (True, u, rs)" by (cases r2) auto
      moreover from this have "photo_task u = photo_task ud"
        using fast_commands_photo_task[of e ud "strip t" l] by (simp add: r2_def)
      ultimately show ?thesis using e1 by (simp add: B_def r2_def[symmetric])
    next
      case False
      then have e2: "r2 = (False, ud, [])"
        using fast_commands_not_handled[of e ud "strip t" l] by (simp add: r2_def)
      show ?thesis
      proof (cases "fst r3")
        case True
        then obtain u rs where "r3 = (True, u, rs)" by (cases r3) auto
        moreover from this have "photo_task u = photo_task ud"
          using reply_to_photo_photo_task[of e ud m t] by (simp add: r3_def)
        ultimately show ?thesis using e1 e2
          by (simp add: B_def r2_def[symmetric] r3_def[symmetric])
      next
        case False
        then have e3: "r3 = (False, ud, [])"
          using reply_to_photo_not_handled[of e ud m t] by (simp add: r3_def)
        show ?thesis using e1 e2 e3
          by (simp add: B_def r2_def[symmetric] r3_def[symmetric] Let_def mode_steps_photo_task
                chat_turn_photo_task)
      qed
    qed
  qed
  have hm: "handle_message e ud m =
      (if t = [] then (ud, [])
       else if \<not> msg_authorized m then (ud, if msg_private m then [R_NoAccess] else [])
       else if \<not> msg_private m \<and> \<not> (msg_reply_to_bot m
                 \<or> (env_bot_username e \<noteq> [] \<and> contains t (env_bot_username e)))
       then (ud, [])
       else B)"
    unfolding handle_message_def B_def r1_def l_def Let_def
    by (simp add: Some ed split del: if_split cong: if_cong)
  show ?thesis
    by (simp add: hm body)
qed

lemma fast_reset_token:
  "process_fast_commands e ud (asc ''.'') (asc ''.'') =
     (True, snd (reset_session (env_now e) ud),
      [if mode ud = Some ImageGen then R_GenCancelled
       else if mode ud = Some Translate then R_TranslateCancelled
       else R_ContextReset])"
  by (simp add: process_fast_commands_def fast_translate_arg_def fast_youtube_arg_def asc_def
        kw_defs Let_def)

lemma handle_message_reset_token:
  assumes "msg_text m = Some text" and "text \<noteq> []" and "msg_authorized m"
    and "msg_private m \<or> msg_reply_to_bot m \<or> (env_bot_username e \<noteq> [] \<and> contains text (env_bot_username e))"
    and "mode ud \<noteq> Some AwaitingEditPrompt"
    and "strip text = asc ''.''" and "env_lower e (asc ''.'') = asc ''.''"
  shows "handle_message e ud m =
     (snd (reset_session (env_now e) ud),
      [if mode ud = Some ImageGen then R_GenCancelled
       else if mode ud = Some Translate then R_TranslateCancelled
       else R_ContextReset])"
proof -
  have ed: "process_photo_edit_prompt e ud text = (False, ud, [])"
    using assms(5) by (simp add: process_photo_edit_prompt_def)
  have ex: "process_exit_commands ud (asc ''.'') = (False, ud, [])"
    by (simp add: process_exit_commands_def exit_keywords_def asc_def)
  have lo: "env_lower e (strip text) = asc ''.''"
    by (simp add: assms(6) assms(7))
  show ?thesis
    using assms(1-4)
    by (simp add: handle_message_def Let_def assms(6) assms(7) ed ex fast_reset_token)
qed

lemma strip_dot: "strip (asc ''.'') = asc ''.''" and dot_nonempty: "asc ''.'' \<noteq> []"
  by (simp_all add: strip_def isspace_def asc_def)

text \<open>
  C10, as the code has it. \<open>reset_session\<close> writes \<open>chat_session\<close> (the new chat) and
  \<open>last_activity\<close> (the current time) and pops \<open>mode\<close> and \<open>active_image\<close>; every
  other key, \<open>photo_task\<close> among them, keeps its value. The callers of it keep
  \<open>photo_task\<close> as well: the fast commands (the bare reset token and the model switches),
  \<open>start\<close>, \<open>set_pro_model\<close> and \<open>set_flash_model\<close>. So does every run of
  \<open>handle_message\<close> in a mode other than \<open>awaiting_edit_prompt\<close>; and in such a mode a
  message that is \<open>.\<close> after stripping (with \<open>'.'.lower() = '.'\<close>) leaves exactly the
  session that \<open>reset_session\<close> makes.
\<close>

theorem reset_keeps_photo_task:
  "snd (reset_session now ud) =
      ud\<lparr>chats_created := Suc (chats_created ud),
         chat_session := Some (fst (reset_session now ud)),
         last_activity := Some now, mode := None, active_image := None\<rparr>
   \<and> photo_task (snd (reset_session now ud)) = photo_task ud
   \<and> photo_task (fst (snd (process_fast_commands e ud stripped lower_text))) = photo_task ud
   \<and> photo_task (fst (start e ud authorized)) = photo_task ud
   \<and> photo_task (fst (set_pro_model e ud authorized)) = photo_task ud
   \<and> photo_task (fst (set_flash_model e ud authorized)) = photo_task ud
   \<and> (mode ud \<noteq> Some AwaitingEditPrompt
        \<longrightarrow> photo_task (fst (handle_message e ud m)) = photo_task ud)
   \<and> (mode ud \<noteq> Some AwaitingEditPrompt \<and> msg_text m = Some text \<and> text \<noteq> []
        \<and> msg_authorized m
        \<and> (msg_private m \<or> msg_reply_to_bot m
             \<or> (env_bot_username e \<noteq> [] \<and> contains text (env_bot_username e)))
        \<and> strip text = asc ''.'' \<and> env_lower e (asc ''.'') = asc ''.''
        \<longrightarrow> fst (handle_message e ud m) = snd (reset_session (env_now e) ud))"
proof -
  have r: "snd (reset_session now ud) =
      ud\<lparr>chats_created := Suc (chats_created ud),
         chat_session := Some (fst (reset_session now ud)),
         last_activity := Some now, mode := None, active_image := None\<rparr>"
    by (simp add: reset_session_def Let_def)
  have d: "fst (handle_message e ud m) = snd (reset_session (env_now e) ud)"
    if "mode ud \<noteq> Some AwaitingEditPrompt \<and> msg_text m = Some text \<and> text \<noteq> []
        \<and> msg_authorized m
        \<and> (msg_private m \<or> msg_reply_to_bot m
             \<or> (env_bot_username e \<noteq> [] \<and> contains text (env_bot_username e)))
        \<and> strip text = asc ''.'' \<and> env_lower e (asc ''.'') = asc ''.''"
    using that handle_message_reset_token[of m "text" e ud] by simp
  show ?thesis
    using r d handle_message_photo_task[of ud e m]
    by (simp add: fast_commands_photo_task reset_session_fields start_def set_pro_model_def
        set_flash_model_def Let_def)
qed

theorem reset_keeps_photo_task_witness:
  "mode session_example \<noteq> Some AwaitingEditPrompt
   \<and> strip (asc ''.'') = asc ''.'' \<and> env_lower env_example (asc ''.'') = asc ''.''
   \<and> fst (handle_message env_example session_example (message_example (asc ''.'')))
       = snd (reset_session 2000 session_example)
   \<and> photo_task (fst (handle_message env_example session_example (message_example (asc ''.''))))
       = Some \<lparr>pt_photos = [[10, 20, 30]], pt_message_id = 7, pt_timestamp = 990\<rparr>"
proof -
  have m: "mode session_example \<noteq> Some AwaitingEditPrompt" by (simp add: session_example_def)
  have pt: "photo_task session_example
              = Some \<lparr>pt_photos = [[10, 20, 30]], pt_message_id = 7, pt_timestamp = 990\<rparr>"
    by (simp add: session_example_def)
  note t = reset_keeps_photo_task[of 2000 session_example env_example "asc ''.''" "asc ''.''" True
             "message_example (asc ''.'')" "asc ''.''"]
  show ?thesis
    using t m
    by (simp add: message_example_fields env_example_fields strip_dot dot_nonempty pt)
qed

text \<open>
  The claim as stated fails: the reset also writes \<open>last_activity\<close>, a model switch also
  writes \<open>model\<close>, and in mode \<open>awaiting_edit_prompt\<close> the bare reset token is taken as
  the edit instruction, so that a successful edit removes the pending photo task.
\<close>

theorem reset_touches_counterexample:
  "last_activity (snd (reset_session 1001 session_example)) \<noteq> last_activity session_example
   \<and> model (fst (set_flash_model env_example session_example True)) \<noteq> model session_example
   \<and> photo_task (session_example\<lparr>mode := Some AwaitingEditPrompt\<rparr>) \<noteq> None
   \<and> handle_message env_example (session_example\<lparr>mode := Some AwaitingEditPrompt\<rparr>)
        (message_example (asc ''.''))
       = (session_example\<lparr>mode := None, photo_task := None\<rparr>,
          [R_EditCaption Flash 1 (asc ''.''), R_Photo [9]])"
proof -
  have ed: "\<And>ps k. env_edit_image env_example ps (asc ''.'') k = Inr [9]"
    by (simp add: env_example_def asc_def)
  have pt: "photo_task session_example
              = Some \<lparr>pt_photos = [[10, 20, 30]], pt_message_id = 7, pt_timestamp = 990\<rparr>"
    and im: "image_model session_example = Some Flash"
    and la: "last_activity session_example = Some 1000"
    and mo: "model session_example = Some Pro"
    by (simp_all add: session_example_def)
  have hm: "handle_message env_example (session_example\<lparr>mode := Some AwaitingEditPrompt\<rparr>)
        (message_example (asc ''.''))
       = (session_example\<lparr>mode := None, photo_task := None\<rparr>,
          [R_EditCaption Flash 1 (asc ''.''), R_Photo [9]])"
    by (simp add: handle_message_def message_example_def process_photo_edit_prompt_def Let_def
          dot_nonempty get_image_model_def pt im ed)
  show ?thesis
    by (simp add: hm reset_session_fields set_flash_model_def pt la mo)
qed

section \<open>Chunking keeps the content\<close>




lemma concat_cons_head: "concat (cons_head c ps) = c # concat ps"
  by (simp add: cons_head_def split: list.splits)

lemma concat_split_on: "filter (\<lambda>c. c \<noteq> sep) (concat (split_on sep s)) = filter (\<lambda>c. c \<noteq> sep) s"
  by (induction s) (auto simp: concat_cons_head)



lemma split_on_nonempty: "split_on sep s \<noteq> []"
  by (induction s) (auto simp: cons_head_def split: list.splits)

lemma split_nn_nonempty: "split_nn s \<noteq> []"
  by (induction s rule: split_nn.induct) (auto simp: cons_head_def split: list.splits)


















text \<open>
  When a line is longer than the limit, its pieces are appended to \<open>parts\<close> while the
  text collected before it is still in \<open>current_part\<close>, so the pieces come out ahead of it.
\<close>

lemma split_message_reorder_example:
  "split_message (asc ''ab'' @ [10] @ asc ''cdefgh'') 5 = Inr [asc ''cdefg'', asc ''h'', asc ''ab'']"
  by (simp add: split_message_def asc_def cons_head_def paragraph_step_def line_step_def
        hard_split_def strip_def isspace_def upt_rec)






section \<open>Album coalescing\<close>

text \<open>
  The steps of the coalescer: the first fragment of a group makes the buffer and the one
  task of the group, a later fragment is appended to the buffer, and the task, once awake,
  pops the buffer.
\<close>

lemma step_first_fragment:
  assumes "fr_authorized f" and "fr_media_group_id f = Some g" and "g \<noteq> []"
    and "pending_albums co g = None"
  shows "\<exists>a. step co (Photo f) =
            Some (co\<lparr>pending_albums := (pending_albums co)(g \<mapsto> a),
                     sleeping := sleeping co @ [g],
                     tasks_created := Suc (tasks_created co)\<rparr>)
           \<and> al_photos a = [fr_photo f]"
proof -
  define a where "a = \<lparr>al_photos = [fr_photo f],
                   al_caption = (case fr_caption f of None \<Rightarrow> [] | Some c \<Rightarrow> c),
                   al_user_id = fr_user_id f, al_chat_id = fr_chat_id f,
                   al_message_id = fr_message_id f, al_timestamp = fr_time f\<rparr>"
  have "step co (Photo f) =
     Some (co\<lparr>pending_albums := (pending_albums co)(g \<mapsto> a),
              sleeping := sleeping co @ [g],
              tasks_created := Suc (tasks_created co)\<rparr>)"
    using assms by (simp add: step_def handle_photo_def album_fragment_def Let_def a_def)
  moreover have "al_photos a = [fr_photo f]" by (simp add: a_def)
  ultimately show ?thesis by blast
qed

lemma step_later_fragment:
  assumes "fr_authorized f" and "fr_media_group_id f = Some g" and "g \<noteq> []"
    and "pending_albums co g = Some a" and "length (al_photos a) < MAX_ALBUM_PHOTOS"
  shows "\<exists>a'. step co (Photo f) = Some (co\<lparr>pending_albums := (pending_albums co)(g \<mapsto> a')\<rparr>)
           \<and> al_photos a' = al_photos a @ [fr_photo f]"
proof -
  define cap where "cap = (case fr_caption f of None \<Rightarrow> [] | Some c \<Rightarrow> c)"
  define a' where "a' = (if al_caption a = [] \<and> cap \<noteq> []
                         then a\<lparr>al_photos := al_photos a @ [fr_photo f], al_caption := cap\<rparr>
                         else a\<lparr>al_photos := al_photos a @ [fr_photo f]\<rparr>)"
  have "step co (Photo f) = Some (co\<lparr>pending_albums := (pending_albums co)(g \<mapsto> a')\<rparr>)"
    using assms
    by (simp add: step_def handle_photo_def album_fragment_def Let_def a'_def cap_def)
  moreover have "al_photos a' = al_photos a @ [fr_photo f]" by (simp add: a'_def)
  ultimately show ?thesis by blast
qed

lemma step_wake:
  assumes "g \<in> set (sleeping co)" and "pending_albums co g = Some a"
  shows "step co (Wake g) =
     Some (co\<lparr>sleeping := remove1 g (sleeping co),
              pending_albums := (pending_albums co)(g := None),
              flushed := flushed co @ [a]\<rparr>)"
  using assms by (simp add: step_def process_album_delayed_def)

text \<open>
  C4, as the code has it. For a group that is not pending and has no sleeping task, three
  fragments handled before the task of the group wakes make one task, at the first
  fragment, and the task pops one album with the three photos in the order of arrival,
  after which the group is not pending. \<open>pending_albums\<close> keeps no record of the groups
  it has flushed: a fourth fragment of the group handled after that flush is a first
  fragment again. It makes a new buffer and a second task, and that task pops a second
  album, with the fourth photo alone.
\<close>

theorem album_coalescing:
  assumes "pending_albums co g = None" and "g \<notin> set (sleeping co)" and "g \<noteq> []"
    and "fr_authorized f1" and "fr_media_group_id f1 = Some g"
    and "fr_authorized f2" and "fr_media_group_id f2 = Some g"
    and "fr_authorized f3" and "fr_media_group_id f3 = Some g"
    and "fr_authorized f4" and "fr_media_group_id f4 = Some g"
  shows "\<exists>co3 co4 co5 co6 a b.
           run co [Photo f1, Photo f2, Photo f3] = Some co3
         \<and> tasks_created co3 = Suc (tasks_created co) \<and> sleeping co3 = sleeping co @ [g]
         \<and> flushed co3 = flushed co
         \<and> run co [Photo f1, Photo f2, Photo f3, Wake g] = Some co4
         \<and> flushed co4 = flushed co @ [a]
         \<and> al_photos a = [fr_photo f1, fr_photo f2, fr_photo f3]
         \<and> pending_albums co4 g = None \<and> sleeping co4 = sleeping co
         \<and> tasks_created co4 = Suc (tasks_created co)
         \<and> run co [Photo f1, Photo f2, Photo f3, Wake g, Photo f4] = Some co5
         \<and> pending_albums co5 g = Some b \<and> al_photos b = [fr_photo f4]
         \<and> sleeping co5 = sleeping co @ [g]
         \<and> tasks_created co5 = Suc (Suc (tasks_created co))
         \<and> flushed co5 = flushed co @ [a]
         \<and> run co [Photo f1, Photo f2, Photo f3, Wake g, Photo f4, Wake g] = Some co6
         \<and> flushed co6 = flushed co @ [a, b] \<and> pending_albums co6 g = None
         \<and> sleeping co6 = sleeping co"
proof -
  from step_first_fragment[OF assms(4,5,3,1)] obtain a1 where
    s1: "step co (Photo f1) =
            Some (co\<lparr>pending_albums := (pending_albums co)(g \<mapsto> a1),
                     sleeping := sleeping co @ [g],
                     tasks_created := Suc (tasks_created co)\<rparr>)"
    and p1: "al_photos a1 = [fr_photo f1]"
    by blast
  define c1 where "c1 = co\<lparr>pending_albums := (pending_albums co)(g \<mapsto> a1),
              sleeping := sleeping co @ [g], tasks_created := Suc (tasks_created co)\<rparr>"
  have pa1: "pending_albums c1 g = Some a1" by (simp add: c1_def)
  have l1: "length (al_photos a1) < MAX_ALBUM_PHOTOS" by (simp add: p1 MAX_ALBUM_PHOTOS_def)
  from step_later_fragment[OF assms(6,7,3) pa1 l1] obtain a2 where
    s2: "step c1 (Photo f2) = Some (c1\<lparr>pending_albums := (pending_albums c1)(g \<mapsto> a2)\<rparr>)"
    and p2: "al_photos a2 = [fr_photo f1, fr_photo f2]"
    by (auto simp: p1)
  define c2 where "c2 = c1\<lparr>pending_albums := (pending_albums c1)(g \<mapsto> a2)\<rparr>"
  have pa2: "pending_albums c2 g = Some a2" by (simp add: c2_def)
  have l2: "length (al_photos a2) < MAX_ALBUM_PHOTOS" by (simp add: p2 MAX_ALBUM_PHOTOS_def)
  from step_later_fragment[OF assms(8,9,3) pa2 l2] obtain a3 where
    s3: "step c2 (Photo f3) = Some (c2\<lparr>pending_albums := (pending_albums c2)(g \<mapsto> a3)\<rparr>)"
    and p3: "al_photos a3 = [fr_photo f1, fr_photo f2, fr_photo f3]"
    by (auto simp: p2)
  define c3 where "c3 = c2\<lparr>pending_albums := (pending_albums c2)(g \<mapsto> a3)\<rparr>"
  define c4 where "c4 = c3\<lparr>sleeping := remove1 g (sleeping c3),
              pending_albums := (pending_albums c3)(g := None), flushed := flushed c3 @ [a3]\<rparr>"
  have s4: "step c3 (Wake g) = Some c4"
    using step_wake[of g c3 a3] by (simp add: c4_def c3_def c2_def c1_def)
  have p4: "pending_albums c4 g = None" by (simp add: c4_def)
  from step_first_fragment[OF assms(10,11,3) p4] obtain b where
    s5: "step c4 (Photo f4) =
            Some (c4\<lparr>pending_albums := (pending_albums c4)(g \<mapsto> b),
                     sleeping := sleeping c4 @ [g],
                     tasks_created := Suc (tasks_created c4)\<rparr>)"
    and pb: "al_photos b = [fr_photo f4]"
    by blast
  define c5 where "c5 = c4\<lparr>pending_albums := (pending_albums c4)(g \<mapsto> b),
              sleeping := sleeping c4 @ [g], tasks_created := Suc (tasks_created c4)\<rparr>"
  have sl4: "sleeping c4 = sleeping co"
    using assms(2) by (simp add: c4_def c3_def c2_def c1_def remove1_append)
  have r3: "run co [Photo f1, Photo f2, Photo f3] = Some c3"
    using s1 s2 s3 by (simp add: c1_def[symmetric] c2_def[symmetric] c3_def[symmetric])
  have r4: "run co [Photo f1, Photo f2, Photo f3, Wake g] = Some c4"
    using s1 s2 s3 s4 by (simp add: c1_def[symmetric] c2_def[symmetric] c3_def[symmetric])
  have r5: "run co [Photo f1, Photo f2, Photo f3, Wake g, Photo f4] = Some c5"
    using s1 s2 s3 s4 s5
    by (simp add: c1_def[symmetric] c2_def[symmetric] c3_def[symmetric] c5_def[symmetric])
  define c6 where "c6 = c5\<lparr>sleeping := remove1 g (sleeping c5),
              pending_albums := (pending_albums c5)(g := None), flushed := flushed c5 @ [b]\<rparr>"
  have s6: "step c5 (Wake g) = Some c6"
    using step_wake[of g c5 b] by (simp add: c6_def c5_def)
  have r6: "run co [Photo f1, Photo f2, Photo f3, Wake g, Photo f4, Wake g] = Some c6"
    using s1 s2 s3 s4 s5 s6
    by (simp add: c1_def[symmetric] c2_def[symmetric] c3_def[symmetric] c5_def[symmetric])
  have "tasks_created c3 = Suc (tasks_created co) \<and> sleeping c3 = sleeping co @ [g]
         \<and> flushed c3 = flushed co"
    by (simp add: c3_def c2_def c1_def)
  moreover have "flushed c4 = flushed co @ [a3] \<and> tasks_created c4 = Suc (tasks_created co)"
    by (simp add: c4_def c3_def c2_def c1_def)
  moreover have "pending_albums c5 g = Some b
         \<and> sleeping c5 = sleeping co @ [g] \<and> tasks_created c5 = Suc (Suc (tasks_created co))
         \<and> flushed c5 = flushed co @ [a3]"
    using sl4 by (simp add: c5_def) (simp add: c4_def c3_def c2_def c1_def)
  moreover have "flushed c6 = flushed co @ [a3, b] \<and> pending_albums c6 g = None
         \<and> sleeping c6 = sleeping co"
    using sl4 assms(2) by (simp add: c6_def c5_def remove1_append) (simp add: c4_def c3_def c2_def c1_def)
  ultimately show ?thesis
    using r3 r4 r5 r6 p4 sl4 p3 pb by blast
qed

lemma run_example:
  "run coalescer_init [Photo (fragment_example [11]), Photo (fragment_example [12]),
       Photo (fragment_example [13]), Wake (asc ''g1''), Photo (fragment_example [14]), Wake (asc ''g1'')]
     = Some \<lparr>pending_albums = Map.empty, sleeping = [], tasks_created = 2,
             flushed = [\<lparr>al_photos = [[11], [12], [13]], al_caption = [], al_user_id = 42, al_chat_id = 42,
                          al_message_id = 5, al_timestamp = 100\<rparr>,
                        \<lparr>al_photos = [[14]], al_caption = [], al_user_id = 42, al_chat_id = 42,
                          al_message_id = 5, al_timestamp = 100\<rparr>]\<rparr>"
  by (simp add: step_def handle_photo_def album_fragment_def process_album_delayed_def
        coalescer_init_def fragment_example_def MAX_ALBUM_PHOTOS_def asc_def Let_def fun_upd_idem)

theorem album_coalescing_witness:
  "pending_albums coalescer_init (asc ''g1'') = None
   \<and> asc ''g1'' \<notin> set (sleeping coalescer_init)
   \<and> map_option (map al_photos \<circ> flushed)
        (run coalescer_init [Photo (fragment_example [11]), Photo (fragment_example [12]),
           Photo (fragment_example [13]), Wake (asc ''g1'')])
       = Some [[[11], [12], [13]]]
   \<and> map_option tasks_created
        (run coalescer_init [Photo (fragment_example [11]), Photo (fragment_example [12]),
           Photo (fragment_example [13]), Wake (asc ''g1'')])
       = Some 1
   \<and> map_option sleeping
        (run coalescer_init [Photo (fragment_example [11]), Photo (fragment_example [12]),
           Photo (fragment_example [13]), Wake (asc ''g1''), Photo (fragment_example [14])])
       = Some [asc ''g1'']"
proof -
  have h1: "pending_albums coalescer_init (asc ''g1'') = None"
    and h2: "asc ''g1'' \<notin> set (sleeping coalescer_init)"
    and h3: "asc ''g1'' \<noteq> []"
    by (simp_all add: coalescer_init_def asc_def)
  have f: "\<And>p. fr_authorized (fragment_example p)"
    "\<And>p. fr_media_group_id (fragment_example p) = Some (asc ''g1'')"
    "\<And>p. fr_photo (fragment_example p) = p"
    by (simp_all add: fragment_example_def)
  have i: "flushed coalescer_init = []" "sleeping coalescer_init = []"
    "tasks_created coalescer_init = 0"
    by (simp_all add: coalescer_init_def)
  show ?thesis
    using album_coalescing[OF h1 h2 h3 f(1) f(2) f(1) f(2) f(1) f(2) f(1) f(2),
            of "[11]" "[12]" "[13]" "[14]"] h1 h2
    by (auto simp: f i)
qed

text \<open>
  The claim as stated fails: the fourth fragment is not dropped. After three fragments, the
  flush and a fourth fragment, the second task of the group flushes the fourth photo as an
  album of its own.
\<close>

theorem album_fourth_fragment_counterexample:
  "map_option (map al_photos \<circ> flushed)
     (run coalescer_init [Photo (fragment_example [11]), Photo (fragment_example [12]),
        Photo (fragment_example [13]), Wake (asc ''g1''), Photo (fragment_example [14]),
        Wake (asc ''g1'')])
   = Some [[[11], [12], [13]], [[14]]]"
  unfolding run_example by simp

section \<open>The formatter escapes the input\<close>

lemma clean_iff: "clean s \<longleftrightarrow> (\<forall>x \<in> set s. snd x = Template \<or> (fst x \<noteq> 38 \<and> fst x \<noteq> 60 \<and> fst x \<noteq> 62))"
  by (simp add: clean_def list_all_iff)

lemma clean_subset: "set t \<subseteq> set s \<Longrightarrow> clean s \<Longrightarrow> clean t"
  by (auto simp: clean_iff)

lemma clean_Nil: "clean []"
  by (simp add: clean_def)

lemma clean_append: "clean (s @ t) \<longleftrightarrow> clean s \<and> clean t"
  by (simp add: clean_def)

lemma clean_concat: "(\<forall>s \<in> set ss. clean s) \<Longrightarrow> clean (concat ss)"
  by (auto simp: clean_iff)

lemma clean_lit: "clean (lit s)"
  by (auto simp: clean_iff lit_def)

lemma clean_take: "clean s \<Longrightarrow> clean (take n s)"
  by (rule clean_subset[OF set_take_subset])

lemma clean_drop: "clean s \<Longrightarrow> clean (drop n s)"
  by (rule clean_subset[OF set_drop_subset])

lemma clean_slice: "clean s \<Longrightarrow> clean (slice s i j)"
  by (simp add: slice_def clean_take clean_drop)

lemma clean_group: "clean s \<Longrightarrow> clean (group s m k)"
  by (simp add: group_def clean_slice)

lemma clean_replace_char: "clean new \<Longrightarrow> clean s \<Longrightarrow> clean (replace_char old new s)"
  by (auto simp: clean_iff replace_char_def split: if_splits)

lemma set_replace_char:
  "set (replace_char old new s) \<subseteq> set new \<union> {x \<in> set s. fst x \<noteq> old}"
  by (auto simp: replace_char_def split: if_splits)

lemma clean_escape_html: "clean (escape_html s)"
proof -
  have "snd x = Template \<or> (fst x \<noteq> 38 \<and> fst x \<noteq> 60 \<and> fst x \<noteq> 62)"
    if "x \<in> set (escape_html s)" for x
  proof -
    let ?a = "replace_char 38 (lit (asc ''&amp;'')) s"
    let ?b = "replace_char 60 (lit (asc ''&lt;'')) ?a"
    from that have "x \<in> set (lit (asc ''&gt;'')) \<or> (x \<in> set ?b \<and> fst x \<noteq> 62)"
      using set_replace_char[of 62 "lit (asc ''&gt;'')" ?b] by (auto simp: escape_html_def)
    moreover have "x \<in> set (lit (asc ''&lt;'')) \<or> (x \<in> set ?a \<and> fst x \<noteq> 60)" if "x \<in> set ?b"
      using that set_replace_char[of 60 "lit (asc ''&lt;'')" ?a] by auto
    moreover have "x \<in> set (lit (asc ''&amp;'')) \<or> fst x \<noteq> 38" if "x \<in> set ?a"
      using that set_replace_char[of 38 "lit (asc ''&amp;'')" s] by auto
    moreover have "snd x = Template" if "x \<in> set (lit t)" for t
      using that by (auto simp: lit_def)
    ultimately show ?thesis by blast
  qed
  then show ?thesis by (simp add: clean_iff)
qed

lemma clean_sub_from:
  assumes "clean s" and "\<And>m. clean (repl m)"
  shows "clean (sub_from repl s pos ms)"
  using assms by (induction ms arbitrary: pos) (simp_all add: clean_append clean_slice clean_drop)

lemma clean_re_sub:
  assumes "clean s" and "\<And>t m. clean t \<Longrightarrow> clean (repl t m)"
  shows "clean (re_sub re p repl s)"
  unfolding re_sub_def using assms by (intro clean_sub_from) simp_all

lemma clean_replace_link: "clean s \<Longrightarrow> clean (replace_link s m)"
  by (simp add: replace_link_def Let_def clean_append clean_lit clean_group clean_replace_char)

lemma clean_emphasis_rules: "clean s \<Longrightarrow> clean (emphasis_rules re s)"
  unfolding emphasis_rules_def Let_def
  by (intro clean_re_sub clean_replace_link)
     (simp_all add: clean_append clean_lit clean_group)

lemma clean_format_fragment: "clean (format_fragment re part)"
  by (simp add: format_fragment_def clean_emphasis_rules clean_escape_html)

lemma isword_special: "\<not> isword re 38" "\<not> isword re 60" "\<not> isword re 62"
  by (simp_all add: isword_def)

lemma clean_word_run: "clean (takeWhile (\<lambda>x. isword re (fst x)) s)"
proof -
  have "fst x \<noteq> 38 \<and> fst x \<noteq> 60 \<and> fst x \<noteq> 62"
    if "x \<in> set (takeWhile (\<lambda>x. isword re (fst x)) s)" for x
    using set_takeWhileD[OF that] isword_special[of re] by metis
  then show ?thesis by (simp add: clean_iff)
qed

lemma clean_format_code: "clean (format_code re part)"
  by (auto simp: format_code_def code_match_def Let_def clean_append clean_lit clean_escape_html
      clean_word_run split: option.splits)

lemma clean_format_parts: "\<forall>s \<in> set (format_parts re ps). clean s"
  by (induction re ps rule: format_parts.induct)
     (simp_all add: clean_format_fragment clean_format_code)

lemma set_join: "set (join sep xs) \<subseteq> set sep \<union> \<Union> (set ` set xs)"
  by (induction sep xs rule: join.induct) auto

lemma clean_join:
  assumes "clean sep" and "\<forall>x \<in> set xs. clean x"
  shows "clean (join sep xs)"
proof -
  have "clean (concat (sep # xs))" using assms by (intro clean_concat) auto
  moreover have "set (join sep xs) \<subseteq> set (concat (sep # xs))" using set_join[of sep xs] by auto
  ultimately show ?thesis using clean_subset by blast
qed

lemma clean_join_map:
  assumes "clean sep" and "\<And>x. clean (f x)"
  shows "clean (join sep (map f xs))"
  using assms by (intro clean_join) auto

lemma clean_wrap_table:
  assumes "\<forall>b \<in> set blocks. clean b"
  shows "clean (fst (wrap_table re t blocks)) \<and> (\<forall>b \<in> set (snd (wrap_table re t blocks)). clean b)"
proof -
  have c: "clean (join (lit [10]) (map (\<lambda>row. join (lit (asc '' | ''))
              (map (\<lambda>(cell, w). escape_html (ljust cell w)) (zip row ws))) rows))" for ws rows
    by (intro clean_join_map clean_lit) (simp add: case_prod_beta clean_escape_html)
  show ?thesis using assms
    by (auto simp: wrap_table_def Let_def clean_lit clean_append c simp del: map_map)
qed

lemma clean_sub_tables:
  assumes "\<forall>b \<in> set blocks. clean b"
  shows "\<forall>b \<in> set (snd (sub_tables re s pos ms blocks)). clean b"
  using assms
proof (induction ms arbitrary: pos blocks)
  case Nil
  then show ?case by simp
next
  case (Cons m ms)
  obtain ph b1 where w: "wrap_table re (group s m 0) blocks = (ph, b1)" by (cases "wrap_table re (group s m 0) blocks")
  have "\<forall>b \<in> set b1. clean b" using clean_wrap_table[OF Cons.prems, of re "group s m 0"] w by simp
  from Cons.IH[OF this, of "m_end m"] show ?case
    by (simp add: w split: prod.splits)
qed

lemma set_replace_str_from: "set (replace_str_from old new k s) \<subseteq> set new \<union> set s"
  by (induction old new k s rule: replace_str_from.induct) auto

lemma clean_replace_str: "clean new \<Longrightarrow> clean s \<Longrightarrow> clean (replace_str old new s)"
  using set_replace_str_from[of old new 0 s]
  by (auto simp: replace_str_def clean_iff)

lemma clean_fold_blocks:
  assumes "\<forall>b \<in> set blocks. clean b" and "clean r"
  shows "clean (fold (\<lambda>(i, block) r. replace_str (placeholder i) block r) (enumerate n blocks) r)"
  using assms by (induction blocks arbitrary: n r) (simp_all add: clean_replace_str)

lemma clean_format_tagged: "clean (format_tagged re text)"
proof (cases "text = []")
  case True
  then show ?thesis by (simp add: format_tagged_def clean_Nil)
next
  case False
  obtain t1 bs where s: "sub_tables re text 0 (re_finditer re TableRows (plain text)) [] = (t1, bs)"
    by (cases "sub_tables re text 0 (re_finditer re TableRows (plain text)) []")
  have b: "\<forall>b \<in> set bs. clean b"
    using clean_sub_tables[of "[]" re "text" 0 "re_finditer re TableRows (plain text)"] s by simp
  have "clean (concat (format_parts re (re_split re CodeSpan t1)))"
    by (intro clean_concat clean_format_parts)
  from clean_fold_blocks[OF b this] show ?thesis
    using False by (simp add: format_tagged_def s)
qed

text \<open>
  The origins are carried along and never read: formatting a text whose origins have been
  overwritten gives the result with its origins overwritten. So the result, as a string, is
  determined by the argument as a string.
\<close>

lemma plain_lit: "plain (lit s) = s"
  by (simp add: plain_def lit_def comp_def)

lemma plain_input_text: "plain (input_text s) = s"
  by (simp add: plain_def input_text_def comp_def)

lemma plain_Cons: "plain (x # s) = fst x # plain s"
  by (simp add: plain_def)

lemma lit_Cons: "lit (c # s) = (c, Template) # lit s"
  by (simp add: lit_def)

lemma lit_plain_lit: "lit (plain (lit s)) = lit s"
  by (simp add: plain_lit)

lemma lit_plain_Nil: "lit (plain []) = []" "lit (plain s) = [] \<longleftrightarrow> s = []"
  by (simp_all add: plain_def lit_def)

lemma lit_plain_Cons: "lit (plain (x # s)) = (fst x, Template) # lit (plain s)"
  by (simp add: plain_def lit_def)

lemma lit_plain_append: "lit (plain (s @ t)) = lit (plain s) @ lit (plain t)"
  by (simp add: plain_def lit_def)

lemma lit_plain_length: "length (lit (plain s)) = length s"
  by (simp add: plain_def lit_def)

lemma retag_slice: "slice (lit (plain s)) i j = lit (plain (slice s i j))"
  by (simp add: slice_def plain_def lit_def take_map drop_map)

lemma retag_drop: "drop n (lit (plain s)) = lit (plain (drop n s))"
  by (simp add: plain_def lit_def drop_map)

lemma retag_group: "group (lit (plain s)) m k = lit (plain (group s m k))"
  by (simp add: group_def retag_slice)

lemma retag_strip_chars: "strip_chars P (lit (plain s)) = lit (plain (strip_chars P s))"
  by (simp add: strip_chars_def plain_def lit_def dropWhile_map rev_map comp_def)

lemma retag_rstrip_chars: "rstrip_chars P (lit (plain s)) = lit (plain (rstrip_chars P s))"
  by (simp add: rstrip_chars_def plain_def lit_def dropWhile_map rev_map comp_def)

lemma retag_replace_char:
  "replace_char old (lit (plain new)) (lit (plain s)) = lit (plain (replace_char old new s))"
  by (induction s) (simp_all add: replace_char_def plain_def lit_def)

lemma retag_escape_html: "escape_html (lit (plain s)) = lit (plain (escape_html s))"
  using retag_replace_char[of _ "lit _"] by (simp add: escape_html_def plain_lit)

lemma retag_replace_str_from:
  "replace_str_from old (lit (plain new)) k (lit (plain s)) = lit (plain (replace_str_from old new k s))"
  by (induction old new k s rule: replace_str_from.induct)
     (simp_all add: lit_plain_Nil lit_plain_append plain_lit plain_Cons lit_Cons)

lemma retag_replace_str:
  "replace_str old (lit (plain new)) (lit (plain s)) = lit (plain (replace_str old new s))"
proof (cases "old = []")
  case True
  have "concat (map (\<lambda>c. c # lit (plain new)) (lit (plain s))) = lit (plain (concat (map (\<lambda>c. c # new) s)))"
    by (induction s) (simp_all add: lit_plain_Nil lit_plain_Cons lit_plain_append)
  then show ?thesis using True by (simp add: replace_str_def lit_plain_append)
next
  case False
  then show ?thesis by (simp add: replace_str_def retag_replace_str_from)
qed

lemma retag_join:
  "join (lit (plain sep)) (map (\<lambda>x. lit (plain x)) xs) = lit (plain (join sep xs))"
  by (induction sep xs rule: join.induct) (simp_all add: lit_plain_Nil lit_plain_append)

lemma retag_cons_head:
  "cons_head (fst c, Template) (map (\<lambda>x. lit (plain x)) ps) = map (\<lambda>x. lit (plain x)) (cons_head c ps)"
  by (simp add: cons_head_def lit_plain_Cons lit_plain_Nil split: list.splits)

lemma retag_split_char:
  "split_char sep (lit (plain s)) = map (\<lambda>x. lit (plain x)) (split_char sep s)"
  by (induction s) (simp_all add: lit_plain_Nil lit_plain_Cons retag_cons_head)

lemma retag_ljust: "ljust (lit (plain s)) w = lit (plain (ljust s w))"
  by (simp add: ljust_def lit_plain_append lit_plain_length) (simp add: plain_def lit_def)

lemma retag_splitlines_from:
  "splitlines_from (lit (plain cur)) (lit (plain s)) = map (\<lambda>x. lit (plain x)) (splitlines_from cur s)"
  by (induction cur s rule: splitlines_from.induct)
     (simp_all add: lit_plain_Nil lit_plain_Cons lit_plain_append)

lemma retag_splitlines: "splitlines (lit (plain s)) = map (\<lambda>x. lit (plain x)) (splitlines s)"
  using retag_splitlines_from[of "[]" s] by (simp add: splitlines_def lit_plain_Nil)


lemma plain_lit_plain: "plain (lit (plain s)) = plain s"
  by (simp add: plain_lit)

lemma retag_sub_from:
  assumes "\<And>m. repl' m = lit (plain (repl m))"
  shows "sub_from repl' (lit (plain s)) pos ms = lit (plain (sub_from repl s pos ms))"
  by (induction ms arbitrary: pos) (simp_all add: assms retag_drop retag_slice lit_plain_append)

lemma retag_re_sub:
  assumes "\<And>s m. repl (lit (plain s)) m = lit (plain (repl s m))"
  shows "re_sub re p repl (lit (plain s)) = lit (plain (re_sub re p repl s))"
  unfolding re_sub_def plain_lit_plain by (rule retag_sub_from) (rule assms)

lemma retag_split_from:
  "split_from (lit (plain s)) pos ms = map (\<lambda>x. lit (plain x)) (split_from s pos ms)"
  by (induction ms arbitrary: pos) (simp_all add: retag_drop retag_slice retag_group)

lemma retag_re_split:
  "re_split re p (lit (plain s)) = map (\<lambda>x. lit (plain x)) (re_split re p s)"
  by (simp add: re_split_def plain_lit_plain retag_split_from)

lemma retag_normalize_cell:
  "normalize_cell re (lit (plain v)) = lit (plain (normalize_cell re v))"
proof -
  have a: "re_sub re p (\<lambda>s m. group s m 2) (lit (plain s)) = lit (plain (re_sub re p (\<lambda>s m. group s m 2) s))" for p s
    by (rule retag_re_sub) (rule retag_group)
  have b: "re_sub re p (\<lambda>s m. lit (asc '' '')) (lit (plain s)) = lit (plain (re_sub re p (\<lambda>s m. lit (asc '' '')) s))" for p s
    by (rule retag_re_sub) (simp add: plain_lit)
  have c: "replace_char 96 [] (lit (plain s)) = lit (plain (replace_char 96 [] s))" for s
    using retag_replace_char[of 96 "[]" s] by (simp add: lit_plain_Nil)
  show ?thesis
    by (simp add: normalize_cell_def Let_def a b c retag_strip_chars)
qed

lemma retag_table_rows:
  "table_rows re (lit (plain t)) = map (map (\<lambda>x. lit (plain x))) (table_rows re t)"
  by (simp add: table_rows_def Let_def retag_splitlines filter_map comp_def retag_strip_chars
      lit_plain_Nil retag_split_char retag_normalize_cell list_all_iff plain_lit_plain)

lemma retag_widths:
  "fold (\<lambda>row ws. map (\<lambda>(w, cell). max w (length cell)) (zip ws row))
        (map (map (\<lambda>x. lit (plain x))) rows) init
   = fold (\<lambda>row ws. map (\<lambda>(w, cell). max w (length cell)) (zip ws row)) rows init"
proof (induction rows arbitrary: init)
  case Nil
  then show ?case by simp
next
  case (Cons row rows)
  have "map (\<lambda>(w, cell). max w (length cell)) (zip init (map (\<lambda>x. lit (plain x)) row))
        = map (\<lambda>(w, cell). max w (length cell)) (zip init row)"
    by (auto simp: zip_map2 lit_plain_length)
  then show ?case using Cons.IH by simp
qed

lemma retag_aligned:
  "map (\<lambda>row. join (lit sep) (map (\<lambda>(cell, w). escape_html (ljust cell w)) (zip row widths)))
       (map (map (\<lambda>x. lit (plain x))) rows)
   = map (\<lambda>x. lit (plain x))
       (map (\<lambda>row. join (lit sep) (map (\<lambda>(cell, w). escape_html (ljust cell w)) (zip row widths))) rows)"
proof -
  have "join (lit sep) (map (\<lambda>(cell, w). escape_html (ljust cell w)) (zip (map (\<lambda>x. lit (plain x)) row) widths))
        = lit (plain (join (lit sep) (map (\<lambda>(cell, w). escape_html (ljust cell w)) (zip row widths))))" for row
  proof -
    have "map (\<lambda>(cell, w). escape_html (ljust cell w)) (zip (map (\<lambda>x. lit (plain x)) row) widths)
          = map (\<lambda>x. lit (plain x)) (map (\<lambda>(cell, w). escape_html (ljust cell w)) (zip row widths))"
      by (simp add: zip_map1 case_prod_beta comp_def retag_ljust retag_escape_html)
    then show ?thesis
      using retag_join[of "lit sep" "map (\<lambda>(cell, w). escape_html (ljust cell w)) (zip row widths)"]
      by (simp add: plain_lit)
  qed
  then show ?thesis by (simp add: comp_def)
qed

lemma retag_pad_rows:
  "map (\<lambda>row. row @ replicate (n - length row) []) (map (map (\<lambda>x. lit (plain x))) rows)
   = map (map (\<lambda>x. lit (plain x))) (map (\<lambda>row. row @ replicate (n - length row) []) rows)"
  by (simp add: comp_def lit_plain_Nil)

lemma retag_wrap_table:
  "wrap_table re (lit (plain t)) (map (\<lambda>x. lit (plain x)) blocks)
   = (lit (plain (fst (wrap_table re t blocks))),
      map (\<lambda>x. lit (plain x)) (snd (wrap_table re t blocks)))"
proof -
  have r: "table_rows re (strip_chars (\<lambda>c. c = 10) (lit (plain t)))
           = map (map (\<lambda>x. lit (plain x))) (table_rows re (strip_chars (\<lambda>c. c = 10) t))"
    by (simp add: retag_strip_chars retag_table_rows)
  have l: "map length (map (map (\<lambda>x. lit (plain x))) rows) = map length rows" for rows :: "tstr list list"
    by simp
  have j: "join (lit [10]) (map (\<lambda>x. lit (plain x)) ls) = lit (plain (join (lit [10]) ls))" for ls
    using retag_join[of "lit [10]" ls] by (simp add: plain_lit)
  show ?thesis
    unfolding wrap_table_def Let_def r l retag_pad_rows retag_widths retag_aligned j
    by (simp add: plain_lit lit_plain_append del: map_map)
qed

lemma retag_sub_tables:
  "sub_tables re (lit (plain s)) pos ms (map (\<lambda>x. lit (plain x)) blocks)
   = (lit (plain (fst (sub_tables re s pos ms blocks))),
      map (\<lambda>x. lit (plain x)) (snd (sub_tables re s pos ms blocks)))"
proof (induction ms arbitrary: pos blocks)
  case Nil
  then show ?case by (simp add: retag_drop)
next
  case (Cons m ms)
  obtain ph b1 where w: "wrap_table re (group s m 0) blocks = (ph, b1)"
    by (cases "wrap_table re (group s m 0) blocks")
  obtain rest b2 where s: "sub_tables re s (m_end m) ms b1 = (rest, b2)"
    by (cases "sub_tables re s (m_end m) ms b1")
  have w': "wrap_table re (group (lit (plain s)) m 0) (map (\<lambda>x. lit (plain x)) blocks)
            = (lit (plain ph), map (\<lambda>x. lit (plain x)) b1)"
    using retag_wrap_table[of re "group s m 0" blocks] by (simp add: retag_group w)
  have s': "sub_tables re (lit (plain s)) (m_end m) ms (map (\<lambda>x. lit (plain x)) b1)
            = (lit (plain rest), map (\<lambda>x. lit (plain x)) b2)"
    using Cons.IH[of "m_end m" b1] by (simp add: s)
  show ?case
    by (simp add: w s w' s' retag_slice lit_plain_append del: map_map)
qed

lemma retag_until_fence:
  "until_fence (lit (plain s)) = map_option (\<lambda>x. lit (plain x)) (until_fence s)"
  by (induction s)
     (simp_all add: lit_plain_Nil plain_Cons lit_Cons plain_lit option.map_comp comp_def)

lemma retag_takeWhile:
  "takeWhile (\<lambda>x. P (fst x)) (lit (plain s)) = lit (plain (takeWhile (\<lambda>x. P (fst x)) s))"
  by (simp add: plain_def lit_def takeWhile_map comp_def)

lemma retag_dropWhile:
  "dropWhile (\<lambda>x. P (fst x)) (lit (plain s)) = lit (plain (dropWhile (\<lambda>x. P (fst x)) s))"
  by (simp add: plain_def lit_def dropWhile_map comp_def)

lemma retag_code_match:
  "code_match re (lit (plain part))
   = map_option (\<lambda>(l, c). (lit (plain l), lit (plain c))) (code_match re part)"
proof -
  have b: "(case lit (plain a) of [] \<Rightarrow> [] | c # cs \<Rightarrow> if fst c = 10 then cs else lit (plain a))
           = lit (plain (case a of [] \<Rightarrow> [] | c # cs \<Rightarrow> if fst c = 10 then cs else a))" for a
    by (cases a) (simp_all add: lit_plain_Nil plain_Cons lit_Cons)
  show ?thesis
    unfolding code_match_def Let_def plain_lit_plain retag_drop retag_takeWhile
      retag_dropWhile b retag_until_fence
    by (simp add: option.map_comp comp_def)
qed

lemma retag_format_code: "format_code re (lit (plain part)) = lit (plain (format_code re part))"
  by (simp add: format_code_def plain_lit_plain retag_code_match Let_def retag_rstrip_chars
      retag_escape_html retag_slice lit_plain_length lit_plain_append plain_lit lit_plain_Nil
      split: option.splits)

lemma retag_replace_link:
  "replace_link (lit (plain s)) m = lit (plain (replace_link s m))"
  using retag_replace_char[of 34 "lit (asc ''&quot;'')" "group s m 2"]
  by (simp add: replace_link_def Let_def retag_group lit_plain_append plain_lit)

lemma retag_emphasis_rules:
  "emphasis_rules re (lit (plain s)) = lit (plain (emphasis_rules re s))"
proof -
  have t: "re_sub re p (\<lambda>s m. lit a @ group s m 1 @ lit b) (lit (plain s))
           = lit (plain (re_sub re p (\<lambda>s m. lit a @ group s m 1 @ lit b) s))" for p a b s
    by (rule retag_re_sub) (simp add: retag_group lit_plain_append plain_lit)
  have u: "re_sub re p (\<lambda>s m. lit a) (lit (plain s)) = lit (plain (re_sub re p (\<lambda>s m. lit a) s))" for p a s
    by (rule retag_re_sub) (simp add: plain_lit)
  have v: "re_sub re p replace_link (lit (plain s)) = lit (plain (re_sub re p replace_link s))" for p s
    by (rule retag_re_sub) (rule retag_replace_link)
  show ?thesis
    unfolding emphasis_rules_def Let_def t u v ..
qed

lemma retag_format_fragment:
  "format_fragment re (lit (plain part)) = lit (plain (format_fragment re part))"
  by (simp add: format_fragment_def retag_escape_html retag_emphasis_rules)

lemma retag_format_parts:
  "format_parts re (map (\<lambda>x. lit (plain x)) ps) = map (\<lambda>x. lit (plain x)) (format_parts re ps)"
  by (induction re ps rule: format_parts.induct)
     (simp_all add: retag_format_fragment retag_format_code)

lemma retag_concat: "concat (map (\<lambda>x. lit (plain x)) xs) = lit (plain (concat xs))"
  by (induction xs) (simp_all add: lit_plain_Nil lit_plain_append)

lemma retag_fold_blocks:
  "fold (\<lambda>(i, block) r. replace_str (placeholder i) block r)
        (enumerate n (map (\<lambda>x. lit (plain x)) blocks)) (lit (plain r))
   = lit (plain (fold (\<lambda>(i, block) r. replace_str (placeholder i) block r) (enumerate n blocks) r))"
  by (induction blocks arbitrary: n r) (simp_all add: retag_replace_str)

lemma retag_format_tagged:
  "format_tagged re (lit (plain text)) = lit (plain (format_tagged re text))"
proof (cases "text = []")
  case True
  then show ?thesis by (simp add: format_tagged_def lit_plain_Nil)
next
  case False
  obtain t1 bs where s: "sub_tables re text 0 (re_finditer re TableRows (plain text)) [] = (t1, bs)"
    by (cases "sub_tables re text 0 (re_finditer re TableRows (plain text)) []")
  have s': "sub_tables re (lit (plain text)) 0 (re_finditer re TableRows (plain text)) []
            = (lit (plain t1), map (\<lambda>x. lit (plain x)) bs)"
    using retag_sub_tables[of re "text" 0 "re_finditer re TableRows (plain text)" "[]"]
    by (simp add: s)
  show ?thesis
    using False
    by (simp add: format_tagged_def lit_plain_Nil plain_lit_plain s s' retag_re_split
        retag_format_parts retag_concat retag_fold_blocks del: map_map)
qed

lemma format_tagged_plain:
  assumes "plain s = plain s'"
  shows "plain (format_tagged re s) = plain (format_tagged re s')"
proof -
  have "plain (format_tagged re s) = plain (format_tagged re (lit (plain s)))"
    by (simp add: retag_format_tagged plain_lit)
  also have "\<dots> = plain (format_tagged re (lit (plain s')))" by (simp add: assms)
  also have "\<dots> = plain (format_tagged re s')"
    by (simp add: retag_format_tagged plain_lit)
  finally show ?thesis .
qed

lemma format_for_telegram_plain: "plain (format_tagged re s) = format_for_telegram re (plain s)"
  unfolding format_for_telegram_def
  by (rule format_tagged_plain) (simp add: plain_input_text)

lemma clean_Input: "clean s \<Longrightarrow> (c, Input) \<in> set s \<Longrightarrow> c \<noteq> 38 \<and> c \<noteq> 60 \<and> c \<noteq> 62"
  by (auto simp: clean_iff)

text \<open>
  C7. The branch for ordinary text applies its emphasis rules to the escaped part, and in
  an escaped text no \<open>&\<close>, \<open><\<close> or \<open>>\<close> comes from the input. Whatever the matches of
  the regular expressions are, no \<open>&\<close>, \<open><\<close> or \<open>>\<close> of the input is in what the branch
  for ordinary text makes of a part, in what the branch for code makes of a part, or in
  the result of \<open>format_for_telegram\<close>: every such character of the result is written by
  the formatter itself.
\<close>

theorem formatter_escaping:
  "format_fragment re part = emphasis_rules re (escape_html part)
   \<and> ((c, Input) \<in> set (escape_html part) \<longrightarrow> c \<noteq> 38 \<and> c \<noteq> 60 \<and> c \<noteq> 62)
   \<and> ((c, Input) \<in> set (format_fragment re part) \<longrightarrow> c \<noteq> 38 \<and> c \<noteq> 60 \<and> c \<noteq> 62)
   \<and> ((c, Input) \<in> set (format_code re part) \<longrightarrow> c \<noteq> 38 \<and> c \<noteq> 60 \<and> c \<noteq> 62)
   \<and> ((c, Input) \<in> set (format_tagged re (input_text text)) \<longrightarrow> c \<noteq> 38 \<and> c \<noteq> 60 \<and> c \<noteq> 62)
   \<and> format_for_telegram re text = plain (format_tagged re (input_text text))"
  using clean_Input[OF clean_escape_html, of c part]
    clean_Input[OF clean_format_fragment, of c re part]
    clean_Input[OF clean_format_code, of c re part]
    clean_Input[OF clean_format_tagged, of c re "input_text text"]
  by (simp add: format_fragment_def format_for_telegram_def)

lemma escape_html_script:
  "escape_html (input_text (asc ''<script>''))
     = lit (asc ''&lt;'') @ input_text (asc ''script'') @ lit (asc ''&gt;'')"
  by (simp add: escape_html_def replace_char_def input_text_def lit_def asc_def)

lemma no_match_sub: "re_finditer re p (plain s) = [] \<Longrightarrow> re_sub re p repl s = s"
  by (simp add: re_sub_def)

lemma emphasis_rules_example: "emphasis_rules re_example s = s"
  by (simp add: emphasis_rules_def Let_def no_match_sub re_example_def)

lemma format_fragment_script:
  "format_fragment re_example (input_text (asc ''<script>''))
     = lit (asc ''&lt;'') @ input_text (asc ''script'') @ lit (asc ''&gt;'')"
  by (simp add: format_fragment_def emphasis_rules_example escape_html_script)

lemma format_code_script:
  "format_code re_example (input_text (96 # asc ''<script>'' @ [96]))
     = lit (asc ''<code>&lt;'') @ input_text (asc ''script'') @ lit (asc ''&gt;</code>'')"
  by (simp add: format_code_def fence_def slice_def escape_html_def replace_char_def
        input_text_def lit_def plain_def asc_def)

lemma format_tagged_script:
  "format_tagged re_example (input_text (asc ''<script>''))
     = lit (asc ''&lt;'') @ input_text (asc ''script'') @ lit (asc ''&gt;'')"
proof -
  have p: "plain (input_text (asc ''<script>'')) \<noteq> code_example"
    by (simp add: plain_def input_text_def asc_def code_example_def)
  have "re_split re_example CodeSpan (input_text (asc ''<script>'')) = [input_text (asc ''<script>'')]"
    using p by (simp add: re_split_def re_example_def)
  then show ?thesis
    by (simp add: format_tagged_def re_example_def format_fragment_script[unfolded re_example_def])
       (simp add: input_text_def asc_def)
qed

text \<open>The same text in a code span and outside of one.\<close>

lemma format_for_telegram_script:
  "format_for_telegram re_example (asc ''<script>'') = asc ''&lt;script&gt;''"
  by (simp add: format_for_telegram_def format_tagged_script)
     (simp add: plain_def lit_def input_text_def asc_def)

lemma format_for_telegram_code_example:
  "format_for_telegram re_example code_example = asc ''&lt;<code>&gt;</code>''"
  by (simp add: format_for_telegram_def format_tagged_def re_example_def re_split_def
        plain_def input_text_def code_example_def group_def slice_def span_of_def m_start_def
        m_end_def format_fragment_def emphasis_rules_def re_sub_def Let_def format_code_def
        fence_def escape_html_def replace_char_def lit_def asc_def)

theorem formatter_escaping_witness:
  "(115, Input) \<in> set (escape_html (input_text (asc ''<script>'')))
   \<and> (115, Input) \<in> set (format_fragment re_example (input_text (asc ''<script>'')))
   \<and> (115, Input) \<in> set (format_code re_example (input_text (96 # asc ''<script>'' @ [96])))
   \<and> (115, Input) \<in> set (format_tagged re_example (input_text (asc ''<script>'')))
   \<and> (115::nat) \<noteq> 38 \<and> (115::nat) \<noteq> 60 \<and> (115::nat) \<noteq> 62
   \<and> format_for_telegram re_example (asc ''<script>'') = asc ''&lt;script&gt;''"
proof -
  have m: "(115, Input) \<in> set (lit a @ input_text (asc ''script'') @ lit b)" for a b
    by (simp add: input_text_def asc_def)
  have a: "(115, Input) \<in> set (escape_html (input_text (asc ''<script>'')))"
    by (simp only: escape_html_script m)
  have b: "(115, Input) \<in> set (format_fragment re_example (input_text (asc ''<script>'')))"
    by (simp only: format_fragment_script m)
  have c: "(115, Input) \<in> set (format_code re_example (input_text (96 # asc ''<script>'' @ [96])))"
    by (simp only: format_code_script m)
  have d: "(115, Input) \<in> set (format_tagged re_example (input_text (asc ''<script>'')))"
    by (simp only: format_tagged_script m)
  from formatter_escaping[of re_example "input_text (asc ''<script>'')" 115 "asc ''<script>''"]
  have e: "format_for_telegram re_example (asc ''<script>'')
             = plain (format_tagged re_example (input_text (asc ''<script>'')))"
    and n: "(115::nat) \<noteq> 38 \<and> (115::nat) \<noteq> 60 \<and> (115::nat) \<noteq> 62"
    using d by blast+
  have "format_for_telegram re_example (asc ''<script>'') = asc ''&lt;script&gt;''"
    unfolding e format_tagged_script by (simp add: plain_def lit_def input_text_def asc_def)
  then show ?thesis using a b c d n by simp
qed

end
